theory Spec2Isabelle
  imports Main
begin

section \<open>Python values, XML documents and exceptions\<close>

text \<open>
  The module \<^verbatim>\<open>lib/jnpr/junos/utils/config.py\<close> is Python 2. Its keyword
  arguments hold scalars; the values it inspects are modelled as \<open>pyval\<close>.
\<close>

datatype pyval = PNone | PBool bool | PInt int | PStr string

text \<open>Truth value of a scalar, as \<^verbatim>\<open>if x:\<close> reads it.\<close>

fun truthy :: "pyval \<Rightarrow> bool" where
  "truthy PNone = False"
| "truthy (PBool b) = b"
| "truthy (PInt i) = (i \<noteq> 0)"
| "truthy (PStr s) = (s \<noteq> [])"

text \<open>
  \<^verbatim>\<open>a == b\<close> on scalars: \<^verbatim>\<open>bool\<close> is a subclass of \<^verbatim>\<open>int\<close>, so
  \<^verbatim>\<open>True == 1\<close> holds, and a string never equals a number.
\<close>

fun py_eq :: "pyval \<Rightarrow> pyval \<Rightarrow> bool" where
  "py_eq PNone PNone = True"
| "py_eq (PBool a) (PBool b) = (a = b)"
| "py_eq (PBool a) (PInt i) = ((if a then 1 else 0) = i)"
| "py_eq (PInt i) (PBool a) = (i = (if a then 1 else 0))"
| "py_eq (PInt i) (PInt j) = (i = j)"
| "py_eq (PStr s) (PStr t) = (s = t)"
| "py_eq _ _ = False"

text \<open>\<^verbatim>\<open>str(n)\<close> for an integer: decimal digits, a minus sign first when negative.\<close>

definition digit_char :: "nat \<Rightarrow> char" where
  "digit_char d = ''0123456789'' ! d"

fun str_nat :: "nat \<Rightarrow> string" where
  "str_nat n = (if n < 10 then [digit_char n] else str_nat (n div 10) @ [digit_char (n mod 10)])"

declare str_nat.simps [simp del]

definition str_int :: "int \<Rightarrow> string" where
  "str_int i = (if i < 0 then CHR ''-'' # str_nat (nat (- i)) else str_nat (nat i))"

fun py_str :: "pyval \<Rightarrow> string" where
  "py_str PNone = ''None''"
| "py_str (PBool b) = (if b then ''True'' else ''False'')"
| "py_str (PInt i) = str_int i"
| "py_str (PStr s) = s"

text \<open>
  An lxml element: its tag, its text (\<^verbatim>\<open>None\<close> when it has none) and its children.
\<close>

datatype xml = Elem (tag: string) (elem_text: "string option") (children: "xml list")

text \<open>\<^verbatim>\<open>e.find(t)\<close> for a plain tag: the first child with that tag, or \<^verbatim>\<open>None\<close>.\<close>

definition xml_find :: "xml \<Rightarrow> string \<Rightarrow> xml option" where
  "xml_find e t = List.find (\<lambda>c. tag c = t) (children e)"

text \<open>
  \<^verbatim>\<open>e.findtext('a/b')\<close>: the text of the first \<^verbatim>\<open>b\<close> child of an \<^verbatim>\<open>a\<close> child, the
  empty string when that element has no text, \<^verbatim>\<open>None\<close> when there is no such element.
\<close>

definition xml_findtext2 :: "xml \<Rightarrow> string \<Rightarrow> string \<Rightarrow> pyval" where
  "xml_findtext2 e a b =
     (case concat (map (\<lambda>c. filter (\<lambda>d. tag d = b) (children c))
                       (filter (\<lambda>c. tag c = a) (children e))) of
        [] \<Rightarrow> PNone
      | d # _ \<Rightarrow> (case elem_text d of None \<Rightarrow> PStr [] | Some s \<Rightarrow> PStr s))"

text \<open>A Python object that crosses the module's interface.\<close>

datatype pyobj = Val pyval | Element xml | Dict "(string \<times> string) list"

text \<open>
  The attribute \<^verbatim>\<open>xml\<close> of an exception object: missing, or holding some object.
\<close>

datatype xml_attr = NoAttr | Attr pyobj

text \<open>
  Modelled from the spec: the exception classes of \<^verbatim>\<open>jnpr.junos.exception\<close> are not
  among the sources. The transport fails in one of three shapes: a remote timeout
  (\<open>RpcTimeoutError\<close>), a structured protocol error carrying command, response document
  and parsed sub-errors (\<open>RpcError\<close>), or any other exception (\<open>OtherError\<close>, with its
  class name), which may carry a diagnostic in its attribute \<^verbatim>\<open>xml\<close>.
  \<open>RpcTimeoutError\<close> is caught ahead of \<open>RpcError\<close> in \<^verbatim>\<open>commit\<close>, as a subclass is,
  and carries the same attributes. The four domain errors carry what their
  constructor calls pass (\<^verbatim>\<open>cmd\<close>, \<^verbatim>\<open>rsp\<close>, \<^verbatim>\<open>errs\<close>; \<^verbatim>\<open>None\<close> when not passed).
  The remaining constructors are Python's built-in exceptions that the module raises
  itself, or that an attribute access or a subscript raises.
\<close>

datatype exn =
    RpcTimeoutError pyobj xml pyobj
  | RpcError pyobj xml pyobj
  | OtherError string xml_attr
  | CommitError pyobj pyobj
  | ConfigLoadError pyobj pyobj pyobj
  | LockError pyobj
  | UnlockError pyobj
  | ValueError string
  | RuntimeError string
  | AttributeError string
  | KeyError string

text \<open>\<^verbatim>\<open>isinstance(err, RpcError)\<close>, with the attributes an \<open>RpcError\<close> has.\<close>

fun rpc_error_fields :: "exn \<Rightarrow> (pyobj \<times> xml \<times> pyobj) option" where
  "rpc_error_fields (RpcError c r es) = Some (c, r, es)"
| "rpc_error_fields (RpcTimeoutError c r es) = Some (c, r, es)"
| "rpc_error_fields _ = None"

text \<open>\<^verbatim>\<open>err.xml\<close>: only an exception of another library has the attribute.\<close>

fun exn_xml :: "exn \<Rightarrow> xml_attr" where
  "exn_xml (OtherError n a) = a"
| "exn_xml _ = NoAttr"

section \<open>The collaborators\<close>

text \<open>
  The remote procedures the module calls through \<^verbatim>\<open>self.rpc\<close>, with their arguments.
\<close>

datatype rpc_call =
    commit_configuration "(string \<rightharpoonup> string) list" "string \<rightharpoonup> pyval"
  | get_configuration "string \<rightharpoonup> string"
  | load_config pyobj "string \<rightharpoonup> string"
  | lock_configuration
  | unlock_configuration
  | load_configuration "string \<rightharpoonup> string"
  | request_save_rescue_configuration
  | request_delete_rescue_configuration
  | get_rescue_information string

text \<open>A Jinja2 template: the file it was read from and its rendering function.\<close>

record template =
  filename :: string
  render :: "(string \<times> string) list \<Rightarrow> exn + string"

text \<open>
  Everything outside the module: the device behind \<^verbatim>\<open>self.rpc\<close>, the file system,
  the XML parser \<^verbatim>\<open>etree.XML\<close>, the template loader \<^verbatim>\<open>self.dev.Template\<close> and the two
  helpers of \<^verbatim>\<open>jnpr.junos.jxml\<close>. Each either returns or raises.
\<close>

record env =
  rpc :: "rpc_call \<Rightarrow> exn + xml"
  read_file :: "string \<Rightarrow> exn + string"
  etree_XML :: "string \<Rightarrow> exn + xml"
  dev_Template :: "string \<Rightarrow> exn + template"
  JXML_remove_namespaces :: "pyobj \<Rightarrow> exn + pyobj"
  JXML_rpc_error :: "pyobj \<Rightarrow> exn + pyobj"

text \<open>
  An operation's run: the remote calls it issued, in order, and how it ended
  (\<open>Inl\<close> the exception raised, \<open>Inr\<close> the value returned).
\<close>

type_synonym run = "rpc_call list \<times> (exn + pyobj)"

section \<open>diff and rollback\<close>

definition diff :: "env \<Rightarrow> int \<Rightarrow> run" where
  "diff e rb_id =
     (if rb_id < 0 \<or> rb_id > 49 then ([], Inl (ValueError (''Invalid rollback #'' @ str_int rb_id)))
      else
        let call = get_configuration
              [''compare'' \<mapsto> ''rollback'', ''rollback'' \<mapsto> str_int rb_id, ''format'' \<mapsto> ''text'']
        in case rpc e call of
             Inl err \<Rightarrow> ([call], Inl err)
           | Inr rsp \<Rightarrow>
               (case xml_find rsp ''configuration-output'' of
                  None \<Rightarrow> ([call], Inl (AttributeError ''text''))
                | Some out \<Rightarrow>
                    (case elem_text out of
                       None \<Rightarrow> ([call], Inr (Val PNone))
                     | Some diff_txt \<Rightarrow>
                         if diff_txt = [CHR 0x0A] then ([call], Inr (Val PNone))
                         else ([call], Inr (Val (PStr diff_txt))))))"

definition rollback :: "env \<Rightarrow> int \<Rightarrow> run" where
  "rollback e rb_id =
     (if rb_id < 0 \<or> rb_id > 49 then ([], Inl (ValueError (''Invalid rollback #'' @ str_int rb_id)))
      else
        let call = load_configuration [''compare'' \<mapsto> ''rollback'', ''rollback'' \<mapsto> str_int rb_id]
        in case rpc e call of
             Inl err \<Rightarrow> ([call], Inl err)
           | Inr rsp \<Rightarrow> ([call], Inr (Val (PBool True))))"

section \<open>Regular expressions\<close>

text \<open>
  The three content-shape tests of \<^verbatim>\<open>load\<close> are calls of \<^verbatim>\<open>re.search\<close>. The patterns
  are kept as data and run by a small matcher, so that each pattern below can be read
  against the source. \<open>Caret m\<close> and \<open>Dollar m\<close> are \<^verbatim>\<open>^\<close> and \<^verbatim>\<open>$\<close>, with \<open>m\<close> telling
  whether \<^verbatim>\<open>re.MULTILINE\<close> is set.
\<close>

datatype rx =
    Sat "char \<Rightarrow> bool"
  | Eps
  | Seq rx rx
  | Alt rx rx
  | Star rx
  | Caret bool
  | Dollar bool

text \<open>A position in the subject string: the character before it and the rest.\<close>

type_synonym pos = "char option \<times> string"

text \<open>
  All positions reachable by repeating a step that consumes input; the fuel is the
  length of the rest, which every step shortens.
\<close>

primrec star_from :: "nat \<Rightarrow> (pos \<Rightarrow> pos list) \<Rightarrow> pos \<Rightarrow> pos list" where
  "star_from 0 f p = [p]"
| "star_from (Suc n) f p =
     p # concat (map (star_from n f) (filter (\<lambda>q. length (snd q) < length (snd p)) (f p)))"

text \<open>The positions at which a match of the pattern that starts at \<open>p\<close> can end.\<close>

primrec rx_match :: "rx \<Rightarrow> pos \<Rightarrow> pos list" where
  "rx_match (Sat P) p = (case snd p of [] \<Rightarrow> [] | c # cs \<Rightarrow> if P c then [(Some c, cs)] else [])"
| "rx_match Eps p = [p]"
| "rx_match (Seq a b) p = concat (map (rx_match b) (rx_match a p))"
| "rx_match (Alt a b) p = rx_match a p @ rx_match b p"
| "rx_match (Star a) p = star_from (length (snd p)) (rx_match a) p"
| "rx_match (Caret m) p = (if fst p = None \<or> (m \<and> fst p = Some (CHR 0x0A)) then [p] else [])"
| "rx_match (Dollar m) p =
     (if snd p = [] \<or> snd p = [CHR 0x0A] \<or> (m \<and> take 1 (snd p) = [CHR 0x0A]) then [p] else [])"

primrec positions :: "char option \<Rightarrow> string \<Rightarrow> pos list" where
  "positions prev [] = [(prev, [])]"
| "positions prev (c # cs) = (prev, c # cs) # positions (Some c) cs"

text \<open>\<^verbatim>\<open>re.search(r, s) is not None\<close>: the pattern matches from some position.\<close>

definition re_search :: "rx \<Rightarrow> string \<Rightarrow> bool" where
  "re_search r s = list_ex (\<lambda>p. rx_match r p \<noteq> []) (positions None s)"

definition rx_seqs :: "rx list \<Rightarrow> rx" where
  "rx_seqs rs = foldr Seq rs Eps"

definition rx_chr :: "char \<Rightarrow> rx" where
  "rx_chr c = Sat (\<lambda>d. d = c)"

definition rx_lit :: "string \<Rightarrow> rx" where
  "rx_lit s = rx_seqs (map rx_chr s)"

definition rx_plus :: "rx \<Rightarrow> rx" where
  "rx_plus r = Seq r (Star r)"

text \<open>
  The character classes of a byte-string pattern: \<^verbatim>\<open>\s\<close> is space, tab, newline,
  vertical tab, form feed and carriage return; \<^verbatim>\<open>\w\<close> is a letter, a digit or the
  underscore; \<^verbatim>\<open>.\<close> is anything but a newline; \<^verbatim>\<open>[a-z:]\<close> under \<^verbatim>\<open>re.I\<close> is a letter of
  either case or a colon.
\<close>

definition is_space :: "char \<Rightarrow> bool" where
  "is_space c = (c \<in> set [CHR 0x20, CHR 0x09, CHR 0x0A, CHR 0x0B, CHR 0x0C, CHR 0x0D])"

definition is_letter :: "char \<Rightarrow> bool" where
  "is_letter c = (c \<in> set ''abcdefghijklmnopqrstuvwxyzABCDEFGHIJKLMNOPQRSTUVWXYZ'')"

definition is_word :: "char \<Rightarrow> bool" where
  "is_word c = (is_letter c \<or> c \<in> set ''0123456789_'')"

definition is_dot :: "char \<Rightarrow> bool" where
  "is_dot c = (c \<noteq> CHR 0x0A)"

definition is_letter_or_colon :: "char \<Rightarrow> bool" where
  "is_letter_or_colon c = (is_letter c \<or> c = CHR '':'')"

text \<open>\<^verbatim>\<open>r'^\s*<.*>$'\<close> with \<^verbatim>\<open>re.MULTILINE\<close>.\<close>

definition rx_xml :: rx where
  "rx_xml = rx_seqs [Caret True, Star (Sat is_space), rx_chr CHR ''<'', Star (Sat is_dot),
                  rx_chr CHR ''>'', Dollar True]"

text \<open>\<^verbatim>\<open>r'^\s*(set|delete|replace|rename)\s'\<close>.\<close>

definition rx_set :: rx where
  "rx_set = rx_seqs [Caret False, Star (Sat is_space),
                  Alt (rx_lit ''set'') (Alt (rx_lit ''delete'') (Alt (rx_lit ''replace'') (rx_lit ''rename''))),
                  Sat is_space]"

text \<open>\<^verbatim>\<open>r'^[a-z:]*\s*\w+\s+{'\<close> with \<^verbatim>\<open>re.I\<close>.\<close>

definition rx_text_open :: rx where
  "rx_text_open = rx_seqs [Caret False, Star (Sat is_letter_or_colon), Star (Sat is_space),
                        rx_plus (Sat is_word), rx_plus (Sat is_space), rx_chr CHR ''{'']"

text \<open>\<^verbatim>\<open>r'.*}\s*$'\<close>.\<close>

definition rx_text_close :: rx where
  "rx_text_close = rx_seqs [Star (Sat is_dot), rx_chr CHR ''}'', Star (Sat is_space), Dollar False]"

text \<open>
  What a pattern without anchors denotes, in the usual way: a set of strings. The
  matcher is compared with it below; \<open>ends r p\<close> are the rests of the subject at which
  a match of \<open>r\<close> from position \<open>p\<close> can end.
\<close>

inductive_set star_lang :: "string set \<Rightarrow> string set" for A :: "string set" where
  nil: "[] \<in> star_lang A"
| step: "x \<in> A \<Longrightarrow> y \<in> star_lang A \<Longrightarrow> x @ y \<in> star_lang A"

primrec lang :: "rx \<Rightarrow> string set" where
  "lang (Sat P) = {[c] |c. P c}"
| "lang Eps = {[]}"
| "lang (Seq a b) = {x @ y |x y. x \<in> lang a \<and> y \<in> lang b}"
| "lang (Alt a b) = lang a \<union> lang b"
| "lang (Star a) = star_lang (lang a)"
| "lang (Caret m) = {[]}"
| "lang (Dollar m) = {[]}"

primrec anchor_free :: "rx \<Rightarrow> bool" where
  "anchor_free (Sat P) = True"
| "anchor_free Eps = True"
| "anchor_free (Seq a b) = (anchor_free a \<and> anchor_free b)"
| "anchor_free (Alt a b) = (anchor_free a \<and> anchor_free b)"
| "anchor_free (Star a) = anchor_free a"
| "anchor_free (Caret m) = False"
| "anchor_free (Dollar m) = False"

definition ends :: "rx \<Rightarrow> pos \<Rightarrow> string set" where
  "ends r p = snd ` set (rx_match r p)"

section \<open>load\<close>

text \<open>
  The keyword arguments of \<^verbatim>\<open>load\<close>; a field is \<open>None\<close> when the key is not in
  \<^verbatim>\<open>kvargs\<close>. \<^verbatim>\<open>rpc_xattrs\<close> is the dictionary of attributes sent with the content.
\<close>

record load_kvargs =
  format :: "string option"
  overwrite :: "pyval option"
  merge :: "pyval option"
  path :: "string option"
  template_path :: "string option"
  template :: "template option"
  template_vars :: "(string \<times> string) list option"

type_synonym xattrs = "string \<rightharpoonup> string"

text \<open>
  \<^verbatim>\<open>os.path.splitext(path)[1]\<close> on a POSIX path: the text from the last dot of the last
  component on, unless every character of the component before that dot is a dot.
\<close>

definition rfind :: "string \<Rightarrow> char \<Rightarrow> int" where
  "rfind p c = (case filter (\<lambda>i. p ! i = c) (rev [0..<length p]) of [] \<Rightarrow> - 1 | i # _ \<Rightarrow> int i)"

definition splitext_ext :: "string \<Rightarrow> string" where
  "splitext_ext p =
     (let sepIndex = rfind p (CHR ''/''); dotIndex = rfind p (CHR ''.'')
      in if dotIndex > sepIndex
            \<and> list_ex (\<lambda>i. p ! i \<noteq> CHR ''.'') [nat (sepIndex + 1)..<nat dotIndex]
         then drop (nat dotIndex) p else [])"

definition lformat_byext :: "string \<Rightarrow> exn + string" where
  "lformat_byext p =
     (let ext = splitext_ext p
      in if ext = ''.xml'' then Inr ''xml''
         else if ext \<in> set [''.conf'', ''.text'', ''.txt''] then Inr ''text''
         else if ext \<in> set [''.set''] then Inr ''set''
         else Inl (ValueError (''Unknown file contents from extension: '' @ ext)))"

text \<open>\<^verbatim>\<open>kvargs.get('overwrite', False)\<close>.\<close>

definition overwrite_arg :: "load_kvargs \<Rightarrow> pyval" where
  "overwrite_arg kv = (case overwrite kv of None \<Rightarrow> PBool False | Some v \<Rightarrow> v)"

text \<open>
  Lines 282 to 295 of \<^verbatim>\<open>load\<close>: the attributes before any format is looked at.
\<close>

definition init_xattrs :: "load_kvargs \<Rightarrow> xattrs" where
  "init_xattrs kv =
     (let rpc_xattrs = [''format'' \<mapsto> ''xml'', ''action'' \<mapsto> ''replace'']
      in if py_eq (PBool True) (overwrite_arg kv) then rpc_xattrs(''action'' \<mapsto> ''override'')
         else if merge kv = Some (PBool True) then rpc_xattrs(''action'' := None)
         else rpc_xattrs)"

definition conflict_msg :: string where
  "conflict_msg = ''conflicting args, cannot use 'set' with 'overwrite'' @ [CHR 0x27]"

definition unresolved_msg :: string where
  "unresolved_msg = ''Not able to resolve the config format '' @
     ''You must define the format of the contents explicitly '' @
     ''to the function. Ex: format='set'' @ [CHR 0x27]"

text \<open>
  The helpers nested in \<^verbatim>\<open>load\<close> update \<^verbatim>\<open>kvargs\<close> and \<^verbatim>\<open>rpc_xattrs\<close> in place and read
  \<^verbatim>\<open>overwrite\<close> from the enclosing scope; here they take \<open>overwrite\<close> and the pair of
  dictionaries, and return the pair or the exception.
\<close>

definition lset_format :: "pyval \<Rightarrow> load_kvargs \<times> xattrs \<Rightarrow> exn + (load_kvargs \<times> xattrs)" where
  "lset_format ov st =
     (case st of (kv, rpc_xattrs) \<Rightarrow>
        (case format kv of
           None \<Rightarrow> Inl (KeyError ''format'')
         | Some f \<Rightarrow>
             if f = ''set'' then
               if py_eq (PBool True) ov then Inl (ValueError conflict_msg)
               else Inr (kv\<lparr>format := Some ''text''\<rparr>,
                         rpc_xattrs(''action'' \<mapsto> ''set'', ''format'' \<mapsto> ''text''))
             else Inr (kv, rpc_xattrs(''format'' \<mapsto> f))))"

definition lset_fromfile ::
    "pyval \<Rightarrow> string \<Rightarrow> load_kvargs \<times> xattrs \<Rightarrow> exn + (load_kvargs \<times> xattrs)" where
  "lset_fromfile ov p st =
     (case st of (kv, rpc_xattrs) \<Rightarrow>
        if format kv = None then
          (case lformat_byext p of
             Inl err \<Rightarrow> Inl err
           | Inr f \<Rightarrow> lset_format ov (kv\<lparr>format := Some f\<rparr>, rpc_xattrs))
        else Inr (kv, rpc_xattrs))"

definition lset_from_rexp :: "string \<Rightarrow> load_kvargs \<Rightarrow> load_kvargs" where
  "lset_from_rexp s kv =
     (if re_search rx_xml s then kv\<lparr>format := Some ''xml''\<rparr>
      else if re_search rx_set s then kv\<lparr>format := Some ''set''\<rparr>
      else if re_search rx_text_open s \<and> re_search rx_text_close s then kv\<lparr>format := Some ''text''\<rparr>
      else kv)"

definition try_load :: "env \<Rightarrow> pyobj \<Rightarrow> xattrs \<Rightarrow> run" where
  "try_load e rpc_contents rpc_xattrs =
     (let call = load_config rpc_contents rpc_xattrs
      in case rpc e call of
           Inl err \<Rightarrow>
             (case rpc_error_fields err of
                Some (c, r, es) \<Rightarrow> ([call], Inl (ConfigLoadError c (Element r) es))
              | None \<Rightarrow> ([call], Inl err))
         | Inr got \<Rightarrow> ([call], Inr (Element got)))"

text \<open>
  The tail shared by the three sources that come with a file name (a path, a template
  path, a template object): resolve the format from the name unless one was given,
  parse the text when the attributes say \<^verbatim>\<open>xml\<close>, then send.
\<close>

definition load_fromfile :: "env \<Rightarrow> pyval \<Rightarrow> string \<Rightarrow> string \<Rightarrow> load_kvargs \<times> xattrs \<Rightarrow> run" where
  "load_fromfile e ov p txt st =
     (case lset_fromfile ov p st of
        Inl err \<Rightarrow> ([], Inl err)
      | Inr (kv, rpc_xattrs) \<Rightarrow>
          if rpc_xattrs ''format'' = Some ''xml'' then
            (case etree_XML e txt of
               Inl err \<Rightarrow> ([], Inl err)
             | Inr x \<Rightarrow> try_load e (Element x) rpc_xattrs)
          else try_load e (Val (PStr txt)) rpc_xattrs)"

text \<open>The branch of \<^verbatim>\<open>load\<close> for content given directly as \<^verbatim>\<open>vargs[0]\<close>.\<close>

definition load_direct :: "env \<Rightarrow> pyval \<Rightarrow> pyobj \<Rightarrow> load_kvargs \<times> xattrs \<Rightarrow> run" where
  "load_direct e ov rpc_contents st =
     (case st of (kv, rpc_xattrs) \<Rightarrow>
        (case rpc_contents of
           Val (PStr s) \<Rightarrow>
             (case (if format kv = None then
                      (let kv' = lset_from_rexp s kv
                       in if format kv' \<noteq> None then lset_format ov (kv', rpc_xattrs)
                          else Inl (RuntimeError unresolved_msg))
                    else Inr (kv, rpc_xattrs)) of
                Inl err \<Rightarrow> ([], Inl err)
              | Inr (kv', rpc_xattrs') \<Rightarrow>
                  if format kv' = Some ''xml'' then
                    (case etree_XML e s of
                       Inl err \<Rightarrow> ([], Inl err)
                     | Inr x \<Rightarrow> try_load e (Element x) rpc_xattrs')
                  else try_load e rpc_contents rpc_xattrs')
         | _ \<Rightarrow> try_load e rpc_contents rpc_xattrs))"

definition render_vars :: "load_kvargs \<Rightarrow> (string \<times> string) list" where
  "render_vars kv = (case template_vars kv of None \<Rightarrow> [] | Some vs \<Rightarrow> vs)"

text \<open>
  Lines 361 to 433: the four content sources, tried in this order, once an explicit
  \<^verbatim>\<open>format\<close> has been applied.
\<close>

definition load_source :: "env \<Rightarrow> pyval \<Rightarrow> pyobj list \<Rightarrow> load_kvargs \<times> xattrs \<Rightarrow> run" where
  "load_source e ov vargs st =
     (case vargs of
        rpc_contents # _ \<Rightarrow> load_direct e ov rpc_contents st
      | [] \<Rightarrow>
          (case path (fst st) of
             Some p \<Rightarrow>
               (case read_file e p of
                  Inl err \<Rightarrow> ([], Inl err)
                | Inr txt \<Rightarrow> load_fromfile e ov p txt st)
           | None \<Rightarrow>
               (case template_path (fst st) of
                  Some p \<Rightarrow>
                    (case dev_Template e p of
                       Inl err \<Rightarrow> ([], Inl err)
                     | Inr t \<Rightarrow>
                         (case render t (render_vars (fst st)) of
                            Inl err \<Rightarrow> ([], Inl err)
                          | Inr txt \<Rightarrow> load_fromfile e ov p txt st))
                | None \<Rightarrow>
                    (case template (fst st) of
                       Some t \<Rightarrow>
                         (case render t (render_vars (fst st)) of
                            Inl err \<Rightarrow> ([], Inl err)
                          | Inr txt \<Rightarrow> load_fromfile e ov (filename t) txt st)
                     | None \<Rightarrow> ([], Inl (RuntimeError ''Unhandled load request''))))))"

definition load :: "env \<Rightarrow> pyobj list \<Rightarrow> load_kvargs \<Rightarrow> run" where
  "load e vargs kvargs =
     (let ov = overwrite_arg kvargs; rpc_xattrs = init_xattrs kvargs
      in case (if format kvargs \<noteq> None then lset_format ov (kvargs, rpc_xattrs)
               else Inr (kvargs, rpc_xattrs)) of
           Inl err \<Rightarrow> ([], Inl err)
         | Inr st \<Rightarrow> load_source e ov vargs st)"

text \<open>
  The format a request resolves to, in the order of precedence the specification gives
  (an explicit \<^verbatim>\<open>format\<close>, then the file extension for content that comes from a file
  or a rendered template, then the shape of a string given directly), written with the
  helpers above. A pre-structured document given without a format keeps the default
  \<^verbatim>\<open>xml\<close> of \<^verbatim>\<open>rpc_xattrs\<close>. The result is \<open>None\<close> when no format is resolved: the
  shape tests all fail, the extension is unknown, the file or template cannot be read
  or rendered, or no content is given. This function is not part of the source; the
  theorems compare \<open>load\<close> with it.
\<close>

definition resolved_format :: "env \<Rightarrow> pyobj list \<Rightarrow> load_kvargs \<Rightarrow> string option" where
  "resolved_format e vargs kv =
     (case format kv of
        Some f \<Rightarrow> Some f
      | None \<Rightarrow>
          (case vargs of
             Val (PStr s) # _ \<Rightarrow> format (lset_from_rexp s kv)
           | _ # _ \<Rightarrow> Some ''xml''
           | [] \<Rightarrow>
               (case path kv of
                  Some p \<Rightarrow>
                    (case read_file e p of
                       Inl err \<Rightarrow> None
                     | Inr txt \<Rightarrow> (case lformat_byext p of Inl err \<Rightarrow> None | Inr f \<Rightarrow> Some f))
                | None \<Rightarrow>
                    (case template_path kv of
                       Some p \<Rightarrow>
                         (case dev_Template e p of
                            Inl err \<Rightarrow> None
                          | Inr t \<Rightarrow>
                              (case render t (render_vars kv) of
                                 Inl err \<Rightarrow> None
                               | Inr txt \<Rightarrow>
                                   (case lformat_byext p of Inl err \<Rightarrow> None | Inr f \<Rightarrow> Some f)))
                     | None \<Rightarrow>
                         (case template kv of
                            Some t \<Rightarrow>
                              (case render t (render_vars kv) of
                                 Inl err \<Rightarrow> None
                               | Inr txt \<Rightarrow>
                                   (case lformat_byext (filename t) of
                                      Inl err \<Rightarrow> None
                                    | Inr f \<Rightarrow> Some f))
                          | None \<Rightarrow> None)))))"

text \<open>
  Three more functions that are not part of the source, with which the theorems state
  what \<open>load\<close> sends. \<open>load_content\<close> is the content that a call provides: the first
  positional argument, or else the text read from \<^verbatim>\<open>path\<close>, or else the text rendered from
  the template at \<^verbatim>\<open>template_path\<close>, or else the text rendered from the \<^verbatim>\<open>template\<close> object;
  it is \<open>None\<close> when reading or rendering raises or when no source is given.
  \<open>sent_content\<close> is that content as it goes into the request: a string whose format is
  \<^verbatim>\<open>xml\<close> is parsed by \<^verbatim>\<open>etree.XML\<close> first, anything else is passed as it is.
  \<open>marker_xattrs\<close> is the attribute dictionary that the specification's rule for the
  action marker gives for a resolved format and the flags.
\<close>

definition load_content :: "env \<Rightarrow> pyobj list \<Rightarrow> load_kvargs \<Rightarrow> pyobj option" where
  "load_content e vargs kv =
     (case vargs of
        rpc_contents # _ \<Rightarrow> Some rpc_contents
      | [] \<Rightarrow>
          (case path kv of
             Some p \<Rightarrow>
               (case read_file e p of Inl err \<Rightarrow> None | Inr txt \<Rightarrow> Some (Val (PStr txt)))
           | None \<Rightarrow>
               (case template_path kv of
                  Some p \<Rightarrow>
                    (case dev_Template e p of
                       Inl err \<Rightarrow> None
                     | Inr t \<Rightarrow>
                         (case render t (render_vars kv) of
                            Inl err \<Rightarrow> None
                          | Inr txt \<Rightarrow> Some (Val (PStr txt))))
                | None \<Rightarrow>
                    (case template kv of
                       Some t \<Rightarrow>
                         (case render t (render_vars kv) of
                            Inl err \<Rightarrow> None
                          | Inr txt \<Rightarrow> Some (Val (PStr txt)))
                     | None \<Rightarrow> None))))"

definition sent_content :: "env \<Rightarrow> string \<Rightarrow> pyobj \<Rightarrow> exn + pyobj" where
  "sent_content e f rpc_contents =
     (case rpc_contents of
        Val (PStr s) \<Rightarrow>
          if f = ''xml'' then
            (case etree_XML e s of Inl err \<Rightarrow> Inl err | Inr x \<Rightarrow> Inr (Element x))
          else Inr rpc_contents
      | _ \<Rightarrow> Inr rpc_contents)"

definition marker_xattrs :: "string \<Rightarrow> load_kvargs \<Rightarrow> xattrs" where
  "marker_xattrs f kv =
     (if f = ''set'' then [''format'' \<mapsto> ''text'', ''action'' \<mapsto> ''set'']
      else if py_eq (PBool True) (overwrite_arg kv) then [''format'' \<mapsto> f, ''action'' \<mapsto> ''override'']
      else if merge kv = Some (PBool True) then [''format'' \<mapsto> f]
      else [''format'' \<mapsto> f, ''action'' \<mapsto> ''replace''])"

section \<open>commit and commit_check\<close>

text \<open>
  The keyword arguments of \<^verbatim>\<open>commit\<close>, each read with \<^verbatim>\<open>kvargs.get\<close>: \<open>PNone\<close> when the
  key is not given.
\<close>

record commit_kvargs =
  comment :: pyval
  confirm :: pyval
  timeout :: pyval
  force_sync :: pyval
  sync :: pyval
  full :: pyval
  detail :: pyval

text \<open>Lines 74 to 109 of \<^verbatim>\<open>commit\<close>: the keyword arguments of the remote call.\<close>

definition commit_rpc_args :: "commit_kvargs \<Rightarrow> (string \<rightharpoonup> pyval)" where
  "commit_rpc_args kv =
     (let rpc_args = Map.empty;
          rpc_args = (if truthy (comment kv) then rpc_args(''log'' \<mapsto> comment kv) else rpc_args);
          rpc_args =
            (if truthy (confirm kv) then
               (let rpc_args = rpc_args(''confirmed'' \<mapsto> PBool True);
                    confirm_val = py_str (confirm kv)
                in if ''True'' \<noteq> confirm_val
                   then rpc_args(''confirm-timeout'' \<mapsto> PStr confirm_val) else rpc_args)
             else rpc_args);
          rpc_args =
            (if truthy (timeout kv) then rpc_args(''dev_timeout'' \<mapsto> timeout kv) else rpc_args);
          rpc_args =
            (if truthy (force_sync kv)
             then rpc_args(''synchronize'' \<mapsto> PBool True, ''force-synchronize'' \<mapsto> PBool True)
             else if truthy (sync kv) then rpc_args(''synchronize'' \<mapsto> PBool True)
             else rpc_args)
      in if truthy (full kv) then rpc_args(''full'' \<mapsto> PBool True) else rpc_args)"

text \<open>Lines 111 to 114: the positional arguments of the remote call.\<close>

definition commit_rpc_varg :: "commit_kvargs \<Rightarrow> (string \<rightharpoonup> string) list" where
  "commit_rpc_varg kv = (if truthy (detail kv) then [[''detail'' \<mapsto> ''detail'']] else [])"

definition commit :: "env \<Rightarrow> commit_kvargs \<Rightarrow> run" where
  "commit e kv =
     (let call = commit_configuration (commit_rpc_varg kv) (commit_rpc_args kv)
      in case rpc e call of
           Inr rsp \<Rightarrow> ([call], Inr (if truthy (detail kv) then Element rsp else Val (PBool True)))
         | Inl err \<Rightarrow>
             (case err of
                RpcTimeoutError c r es \<Rightarrow> ([call], Inl err)
              | _ \<Rightarrow>
                  (case rpc_error_fields err of
                     Some (c, r, es) \<Rightarrow>
                       if xml_find r ''ok'' \<noteq> None then ([call], Inr (Val (PBool True)))
                       else ([call], Inl (CommitError c (Element r)))
                   | None \<Rightarrow>
                       (case exn_xml err of
                          Attr (Element x) \<Rightarrow> ([call], Inl (CommitError (Val PNone) (Element x)))
                        | _ \<Rightarrow> ([call], Inl err)))))"

definition commit_check :: "env \<Rightarrow> run" where
  "commit_check e =
     (let call = commit_configuration [] [''check'' \<mapsto> PBool True]
      in case rpc e call of
           Inr rsp \<Rightarrow> ([call], Inr (Val (PBool True)))
         | Inl err \<Rightarrow>
             (case rpc_error_fields err of
                Some (c, r, es) \<Rightarrow>
                  if xml_find r ''ok'' \<noteq> None then ([call], Inr (Val (PBool True)))
                  else ([call], Inl (CommitError c (Element r)))
              | None \<Rightarrow>
                  (case exn_xml err of
                     NoAttr \<Rightarrow> ([call], Inl (AttributeError ''xml''))
                   | Attr v \<Rightarrow>
                       (case JXML_rpc_error e v of
                          Inl err' \<Rightarrow> ([call], Inl err')
                        | Inr d \<Rightarrow> ([call], Inr d)))))"

section \<open>lock and unlock\<close>

definition lock :: "env \<Rightarrow> run" where
  "lock e =
     (let call = lock_configuration
      in case rpc e call of
           Inr rsp \<Rightarrow> ([call], Inr (Val (PBool True)))
         | Inl err \<Rightarrow>
             (case rpc_error_fields err of
                Some (c, r, es) \<Rightarrow> ([call], Inl (LockError (Element r)))
              | None \<Rightarrow>
                  (case exn_xml err of
                     NoAttr \<Rightarrow> ([call], Inl (AttributeError ''xml''))
                   | Attr v \<Rightarrow>
                       (case JXML_remove_namespaces e v of
                          Inl err' \<Rightarrow> ([call], Inl err')
                        | Inr d \<Rightarrow> ([call], Inl (LockError d))))))"

definition unlock :: "env \<Rightarrow> run" where
  "unlock e =
     (let call = unlock_configuration
      in case rpc e call of
           Inr rsp \<Rightarrow> ([call], Inr (Val (PBool True)))
         | Inl err \<Rightarrow>
             (case rpc_error_fields err of
                Some (c, r, es) \<Rightarrow> ([call], Inl (UnlockError (Element r)))
              | None \<Rightarrow>
                  (case exn_xml err of
                     NoAttr \<Rightarrow> ([call], Inl (AttributeError ''xml''))
                   | Attr v \<Rightarrow>
                       (case JXML_remove_namespaces e v of
                          Inl err' \<Rightarrow> ([call], Inl err')
                        | Inr d \<Rightarrow> ([call], Inl (UnlockError d))))))"

section \<open>rescue\<close>

definition rescue_save :: "env \<Rightarrow> run" where
  "rescue_save e =
     (let call = request_save_rescue_configuration
      in case rpc e call of
           Inl err \<Rightarrow> ([call], Inl err)
         | Inr rsp \<Rightarrow> ([call], Inr (Val (PBool True))))"

definition rescue_delete :: "env \<Rightarrow> run" where
  "rescue_delete e =
     (let call = request_delete_rescue_configuration
      in case rpc e call of
           Inl err \<Rightarrow> ([call], Inl err)
         | Inr rsp \<Rightarrow> ([call], Inr (Val (PBool True))))"

definition rescue_get :: "env \<Rightarrow> string \<Rightarrow> run" where
  "rescue_get e fmt =
     (let call = get_rescue_information fmt
      in case rpc e call of
           Inl err \<Rightarrow> ([call], Inr (Val PNone))
         | Inr got \<Rightarrow>
             if ''text'' = fmt
             then ([call], Inr (Val (xml_findtext2 got ''configuration-information''
                                        ''configuration-output'')))
             else ([call], Inr (Element got)))"

definition rescue_reload :: "env \<Rightarrow> run" where
  "rescue_reload e =
     (let call = load_configuration [''rescue'' \<mapsto> ''rescue'']
      in case rpc e call of
           Inl err \<Rightarrow> ([call], Inr (Val (PBool False)))
         | Inr rsp \<Rightarrow> ([call], Inr (Element rsp)))"

definition unsupported_action :: "string \<Rightarrow> run" where
  "unsupported_action action = ([], Inl (ValueError (''unsupported action: '' @ action)))"

definition rescue :: "env \<Rightarrow> string \<Rightarrow> string \<Rightarrow> run" where
  "rescue e action fmt =
     (if action = ''get'' then rescue_get e fmt
      else if action = ''save'' then rescue_save e
      else if action = ''delete'' then rescue_delete e
      else if action = ''reload'' then rescue_reload e
      else unsupported_action action)"

section \<open>Example collaborators\<close>

text \<open>
  Concrete surroundings on which the theorems below are instantiated: a device that
  answers every call with an empty reply, and devices that fail every call with a
  given exception. Files and templates are absent, the parser wraps the text.
\<close>

definition quiet_env :: "(rpc_call \<Rightarrow> exn + xml) \<Rightarrow> env" where
  "quiet_env dev =
     \<lparr>rpc = dev,
      read_file = (\<lambda>p. Inr ''set system host-name foo''),
      etree_XML = (\<lambda>s. Inr (Elem ''configuration'' (Some s) [])),
      dev_Template = (\<lambda>p. Inl (OtherError ''TemplateNotFound'' NoAttr)),
      JXML_remove_namespaces = (\<lambda>v. Inr v),
      JXML_rpc_error = (\<lambda>v. Inr (Dict [(''message'', ''syntax error'')]))\<rparr>"

definition ok_dev :: "rpc_call \<Rightarrow> exn + xml" where
  "ok_dev call = Inr (Elem ''rpc-reply'' None [])"

definition failing_dev :: "exn \<Rightarrow> rpc_call \<Rightarrow> exn + xml" where
  "failing_dev err call = Inl err"

definition no_load_kvargs :: load_kvargs where
  "no_load_kvargs = \<lparr>format = None, overwrite = None, merge = None, path = None,
                     template_path = None, template = None, template_vars = None\<rparr>"

definition no_commit_kvargs :: commit_kvargs where
  "no_commit_kvargs = \<lparr>comment = PNone, confirm = PNone, timeout = PNone, force_sync = PNone,
                       sync = PNone, full = PNone, detail = PNone\<rparr>"

text \<open>Example content and example replies.\<close>

definition curly_example :: string where
  "curly_example = ''system {'' @ [CHR 0x0A] @ '' host-name foo;'' @ [CHR 0x0A] @ ''}''"

definition doc_example :: xml where
  "doc_example = Elem ''configuration'' None [Elem ''system'' None []]"

definition ok_rsp :: xml where
  "ok_rsp = Elem ''rpc-reply'' None [Elem ''warning'' (Some ''w'') [], Elem ''ok'' None []]"

definition bad_rsp :: xml where
  "bad_rsp = Elem ''rpc-reply'' None [Elem ''rpc-error'' (Some ''boom'') []]"

text \<open>
  A template object named \<^verbatim>\<open>interfaces.conf\<close>, and surroundings in which every template
  path loads, both rendering the example in curly-brace style.
\<close>

definition conf_template :: template where
  "conf_template = \<lparr>filename = ''interfaces.conf'', render = (\<lambda>vs. Inr curly_example)\<rparr>"

definition template_env :: env where
  "template_env =
     (quiet_env ok_dev)
       \<lparr>dev_Template := (\<lambda>p. Inr \<lparr>filename = p, render = (\<lambda>vs. Inr curly_example)\<rparr>)\<rparr>"

section \<open>Rollback ids are checked before the device is contacted\<close>

lemma str_int_examples:
  "str_int (- 1) = ''-1''" "str_int 50 = ''50''" "str_int 0 = ''0''" "str_int 49 = ''49''"
  "str_int 5 = ''5''"
  by (simp_all add: str_int_def str_nat.simps digit_char_def)

text \<open>
  C8. An integer rollback id below 0 or above 49 makes both \<open>diff\<close> and \<open>rollback\<close> raise
  \<open>ValueError\<close> with the message \<^verbatim>\<open>Invalid rollback #<id>\<close>, and no remote call has
  been issued; for an id from 0 to 49 the check passes and exactly one remote request,
  carrying the id, is issued.
\<close>

theorem rollback_id_bounds:
  "(rb_id < 0 \<or> 49 < rb_id \<longrightarrow>
      diff e rb_id = ([], Inl (ValueError (''Invalid rollback #'' @ str_int rb_id))) \<and>
      rollback e rb_id = ([], Inl (ValueError (''Invalid rollback #'' @ str_int rb_id))))
   \<and> (0 \<le> rb_id \<and> rb_id \<le> 49 \<longrightarrow>
      fst (diff e rb_id) =
        [get_configuration [''compare'' \<mapsto> ''rollback'', ''rollback'' \<mapsto> str_int rb_id,
                            ''format'' \<mapsto> ''text'']] \<and>
      fst (rollback e rb_id) =
        [load_configuration [''compare'' \<mapsto> ''rollback'', ''rollback'' \<mapsto> str_int rb_id]])"
  by (auto simp: diff_def rollback_def Let_def split: sum.splits option.splits)

theorem rollback_id_bounds_witness:
  "diff (quiet_env ok_dev) (- 1) = ([], Inl (ValueError ''Invalid rollback #-1'')) \<and>
   rollback (quiet_env ok_dev) (- 1) = ([], Inl (ValueError ''Invalid rollback #-1'')) \<and>
   diff (quiet_env ok_dev) 50 = ([], Inl (ValueError ''Invalid rollback #50'')) \<and>
   rollback (quiet_env ok_dev) 50 = ([], Inl (ValueError ''Invalid rollback #50'')) \<and>
   fst (diff (quiet_env ok_dev) 0) =
     [get_configuration [''compare'' \<mapsto> ''rollback'', ''rollback'' \<mapsto> ''0'',
                         ''format'' \<mapsto> ''text'']] \<and>
   fst (rollback (quiet_env ok_dev) 0) =
     [load_configuration [''compare'' \<mapsto> ''rollback'', ''rollback'' \<mapsto> ''0'']] \<and>
   fst (diff (quiet_env ok_dev) 49) =
     [get_configuration [''compare'' \<mapsto> ''rollback'', ''rollback'' \<mapsto> ''49'',
                         ''format'' \<mapsto> ''text'']] \<and>
   fst (rollback (quiet_env ok_dev) 49) =
     [load_configuration [''compare'' \<mapsto> ''rollback'', ''rollback'' \<mapsto> ''49'']]"
  using rollback_id_bounds [of "- 1" "quiet_env ok_dev"] rollback_id_bounds [of 50 "quiet_env ok_dev"]
    rollback_id_bounds [of 0 "quiet_env ok_dev"] rollback_id_bounds [of 49 "quiet_env ok_dev"]
  by (simp add: str_int_examples)

section \<open>The arguments of commit\<close>

lemma digit_char_is_digit: "d < 10 \<Longrightarrow> digit_char d \<in> set ''0123456789''"
proof -
  assume "d < 10"
  then have "d \<in> {0, 1, 2, 3, 4, 5, 6, 7, 8, 9}" by auto
  then show ?thesis by (auto simp: digit_char_def)
qed

lemma str_nat_digits: "str_nat n \<noteq> [] \<and> set (str_nat n) \<subseteq> set ''0123456789''"
proof (induction n rule: str_nat.induct)
  case (1 n)
  show ?case
  proof (cases "n < 10")
    case True
    then show ?thesis using digit_char_is_digit [of n] by (simp add: str_nat.simps [of n])
  next
    case False
    have "n mod 10 < 10" by simp
    then have "digit_char (n mod 10) \<in> set ''0123456789''" by (rule digit_char_is_digit)
    with False "1.IH" show ?thesis by (simp add: str_nat.simps [of n])
  qed
qed

lemma str_int_not_True: "str_int i \<noteq> ''True''"
proof
  assume a: "str_int i = ''True''"
  show False
  proof (cases "i < 0")
    case True
    with a show False by (simp add: str_int_def)
  next
    case False
    with a have "str_nat (nat i) = ''True''" by (simp add: str_int_def)
    with str_nat_digits [of "nat i"] show False by simp
  qed
qed

lemma commit_issues_one_call:
  "fst (commit e kv) = [commit_configuration (commit_rpc_varg kv) (commit_rpc_args kv)]"
  unfolding commit_def Let_def
  by (simp split: sum.split exn.split option.split xml_attr.split pyobj.split prod.split)

lemma commit_args_confirmed:
  "commit_rpc_args kv ''confirmed'' = (if truthy (confirm kv) then Some (PBool True) else None)"
  by (simp add: commit_rpc_args_def Let_def)

lemma commit_args_confirm_timeout:
  "commit_rpc_args kv ''confirm-timeout'' =
     (if truthy (confirm kv) \<and> py_str (confirm kv) \<noteq> ''True''
      then Some (PStr (py_str (confirm kv))) else None)"
  by (simp add: commit_rpc_args_def Let_def)

text \<open>
  C7. When \<^verbatim>\<open>confirm\<close> is given (and true, as \<^verbatim>\<open>if confirm:\<close> reads it), the request
  carries \<^verbatim>\<open>confirmed\<close>; \<^verbatim>\<open>confirm-timeout\<close> is attached exactly when \<^verbatim>\<open>str(confirm)\<close>
  is not \<^verbatim>\<open>'True'\<close>, and then with that text: for the bare \<^verbatim>\<open>True\<close> it is absent, for a
  minute count \<open>n\<close> it is the decimal text of \<open>n\<close>. The remote call carries these arguments.
\<close>

theorem commit_confirm_args:
  "truthy (confirm kv) \<longrightarrow>
     commit_rpc_args kv ''confirmed'' = Some (PBool True)
     \<and> commit_rpc_args kv ''confirm-timeout'' =
         (if py_str (confirm kv) = ''True'' then None else Some (PStr (py_str (confirm kv))))
     \<and> (confirm kv = PBool True \<longrightarrow> commit_rpc_args kv ''confirm-timeout'' = None)
     \<and> (\<forall>n. confirm kv = PInt n \<longrightarrow>
           commit_rpc_args kv ''confirm-timeout'' = Some (PStr (str_int n)))
     \<and> fst (commit e kv) = [commit_configuration (commit_rpc_varg kv) (commit_rpc_args kv)]"
  by (auto simp: commit_args_confirmed commit_args_confirm_timeout commit_issues_one_call
        str_int_not_True)

theorem commit_confirm_args_witness:
  "commit_rpc_args (no_commit_kvargs\<lparr>confirm := PBool True\<rparr>) ''confirmed'' = Some (PBool True) \<and>
   commit_rpc_args (no_commit_kvargs\<lparr>confirm := PBool True\<rparr>) ''confirm-timeout'' = None \<and>
   commit_rpc_args (no_commit_kvargs\<lparr>confirm := PInt 5\<rparr>) ''confirmed'' = Some (PBool True) \<and>
   commit_rpc_args (no_commit_kvargs\<lparr>confirm := PInt 5\<rparr>) ''confirm-timeout'' = Some (PStr ''5'') \<and>
   fst (commit (quiet_env ok_dev) (no_commit_kvargs\<lparr>confirm := PInt 5\<rparr>)) =
     [commit_configuration [] [''confirmed'' \<mapsto> PBool True, ''confirm-timeout'' \<mapsto> PStr ''5'']]"
  using commit_confirm_args [of "no_commit_kvargs\<lparr>confirm := PBool True\<rparr>" "quiet_env ok_dev"]
    commit_confirm_args [of "no_commit_kvargs\<lparr>confirm := PInt 5\<rparr>" "quiet_env ok_dev"]
  by (simp add: no_commit_kvargs_def str_int_examples commit_rpc_varg_def commit_rpc_args_def)

section \<open>Failures of commit and commit_check\<close>

text \<open>
  C4. When the remote call of \<open>commit\<close> or of \<open>commit_check\<close> fails with a structured
  protocol error, the operation returns \<^verbatim>\<open>True\<close> if the error's response has an \<^verbatim>\<open>ok\<close>
  child, and otherwise raises \<open>CommitError\<close> carrying the error's command and response.
\<close>

theorem commit_protocol_error:
  "(rpc e (commit_configuration (commit_rpc_varg kv) (commit_rpc_args kv)) = Inl (RpcError c r es) \<longrightarrow>
      snd (commit e kv) =
        (if xml_find r ''ok'' \<noteq> None then Inr (Val (PBool True)) else Inl (CommitError c (Element r))))
   \<and> (rpc e (commit_configuration [] [''check'' \<mapsto> PBool True]) = Inl (RpcError c r es) \<longrightarrow>
      snd (commit_check e) =
        (if xml_find r ''ok'' \<noteq> None then Inr (Val (PBool True)) else Inl (CommitError c (Element r))))"
  by (simp add: commit_def commit_check_def Let_def)

theorem commit_protocol_error_witness:
  "snd (commit (quiet_env (failing_dev (RpcError (Val (PStr ''commit'')) ok_rsp (Val PNone)))) no_commit_kvargs)
     = Inr (Val (PBool True)) \<and>
   snd (commit_check (quiet_env (failing_dev (RpcError (Val (PStr ''commit'')) ok_rsp (Val PNone)))))
     = Inr (Val (PBool True)) \<and>
   snd (commit (quiet_env (failing_dev (RpcError (Val (PStr ''commit'')) bad_rsp (Val PNone)))) no_commit_kvargs)
     = Inl (CommitError (Val (PStr ''commit'')) (Element bad_rsp)) \<and>
   snd (commit_check (quiet_env (failing_dev (RpcError (Val (PStr ''commit'')) bad_rsp (Val PNone)))))
     = Inl (CommitError (Val (PStr ''commit'')) (Element bad_rsp))"
  using commit_protocol_error [of "quiet_env (failing_dev (RpcError (Val (PStr ''commit'')) ok_rsp (Val PNone)))"
          no_commit_kvargs "Val (PStr ''commit'')" ok_rsp "Val PNone"]
        commit_protocol_error [of "quiet_env (failing_dev (RpcError (Val (PStr ''commit'')) bad_rsp (Val PNone)))"
          no_commit_kvargs "Val (PStr ''commit'')" bad_rsp "Val PNone"]
  by (simp add: quiet_env_def failing_dev_def ok_rsp_def bad_rsp_def xml_find_def)





section \<open>Exceptions of an unrecognised shape\<close>

text \<open>
  An exception that is not a protocol error passes through the remote call of \<open>load\<close>
  unchanged, as it does through \<open>commit\<close> when it carries no XML element.
\<close>

lemma try_load_unrecognised_propagates:
  assumes "rpc e (load_config c xa) = Inl err" and "rpc_error_fields err = None"
  shows "try_load e c xa = ([load_config c xa], Inl err)"
  using assms by (simp add: try_load_def)

lemma lock_without_diagnostic:
  assumes "rpc e lock_configuration = Inl err"
    and "rpc_error_fields err = None" and "exn_xml err = NoAttr"
  shows "lock e = ([lock_configuration], Inl (AttributeError ''xml''))"
  using assms by (simp add: lock_def)

lemma unlock_without_diagnostic:
  assumes "rpc e unlock_configuration = Inl err"
    and "rpc_error_fields err = None" and "exn_xml err = NoAttr"
  shows "unlock e = ([unlock_configuration], Inl (AttributeError ''xml''))"
  using assms by (simp add: unlock_def)

text \<open>
  C5. The claim is that a failure of an unrecognised shape reaches the caller of
  \<open>lock\<close>, \<open>unlock\<close>, \<open>load\<close> and \<open>commit\<close> unmodified. \<open>commit\<close> keeps it: it tests for the
  attribute \<^verbatim>\<open>xml\<close> before reading it. \<open>lock\<close> and \<open>unlock\<close> read \<^verbatim>\<open>err.xml\<close> without that
  test, so an exception without the attribute is replaced by the \<open>AttributeError\<close> of
  the handler: on a device whose every call fails with an \<^verbatim>\<open>IOError\<close>, \<open>lock\<close> and
  \<open>unlock\<close> end in \<open>AttributeError\<close> where \<open>commit\<close> ends in the \<^verbatim>\<open>IOError\<close>.
\<close>

theorem lock_unlock_mask_unrecognised:
  "lock (quiet_env (failing_dev (OtherError ''IOError'' NoAttr)))
     = ([lock_configuration], Inl (AttributeError ''xml'')) \<and>
   unlock (quiet_env (failing_dev (OtherError ''IOError'' NoAttr)))
     = ([unlock_configuration], Inl (AttributeError ''xml'')) \<and>
   snd (commit (quiet_env (failing_dev (OtherError ''IOError'' NoAttr))) no_commit_kvargs)
     = Inl (OtherError ''IOError'' NoAttr)"
  by (simp add: lock_def unlock_def commit_def quiet_env_def failing_dev_def)

section \<open>rescue\<close>

text \<open>
  C9. \<open>rescue\<close> with action \<^verbatim>\<open>get\<close> always returns: when the retrieval fails, whatever
  the exception, the result is \<^verbatim>\<open>None\<close>. With action \<^verbatim>\<open>reload\<close> it always returns too:
  \<^verbatim>\<open>False\<close> when the remote call fails, the raw response when it succeeds.
\<close>

theorem rescue_get_reload_swallow:
  "(\<exists>v. rescue e ''get'' fmt = ([get_rescue_information fmt], Inr v))
   \<and> (\<forall>err. rpc e (get_rescue_information fmt) = Inl err \<longrightarrow>
         rescue e ''get'' fmt = ([get_rescue_information fmt], Inr (Val PNone)))
   \<and> (\<exists>v. rescue e ''reload'' fmt = ([load_configuration [''rescue'' \<mapsto> ''rescue'']], Inr v))
   \<and> (\<forall>err. rpc e (load_configuration [''rescue'' \<mapsto> ''rescue'']) = Inl err \<longrightarrow>
         rescue e ''reload'' fmt = ([load_configuration [''rescue'' \<mapsto> ''rescue'']], Inr (Val (PBool False))))
   \<and> (\<forall>rsp. rpc e (load_configuration [''rescue'' \<mapsto> ''rescue'']) = Inr rsp \<longrightarrow>
         rescue e ''reload'' fmt = ([load_configuration [''rescue'' \<mapsto> ''rescue'']], Inr (Element rsp)))"
  by (auto simp: rescue_def rescue_get_def rescue_reload_def Let_def split: sum.splits)

theorem rescue_get_reload_swallow_witness:
  "rescue (quiet_env (failing_dev (OtherError ''IOError'' NoAttr))) ''get'' ''text''
     = ([get_rescue_information ''text''], Inr (Val PNone)) \<and>
   rescue (quiet_env (failing_dev (RpcError (Val PNone) bad_rsp (Val PNone)))) ''reload'' ''text''
     = ([load_configuration [''rescue'' \<mapsto> ''rescue'']], Inr (Val (PBool False))) \<and>
   rescue (quiet_env ok_dev) ''reload'' ''text''
     = ([load_configuration [''rescue'' \<mapsto> ''rescue'']], Inr (Element (Elem ''rpc-reply'' None [])))"
  using rescue_get_reload_swallow [of "quiet_env (failing_dev (OtherError ''IOError'' NoAttr))" "''text''"]
    rescue_get_reload_swallow [of "quiet_env (failing_dev (RpcError (Val PNone) bad_rsp (Val PNone)))" "''text''"]
    rescue_get_reload_swallow [of "quiet_env ok_dev" "''text''"]
  by (simp add: quiet_env_def failing_dev_def ok_dev_def)

section \<open>The request that load builds\<close>

lemma try_load_fst: "fst (try_load e c xa) = [load_config c xa]"
  by (simp add: try_load_def Let_def split: sum.split option.split prod.split)

lemma lset_format_Inr:
  "lset_format ov (kv, xa) = Inr (kv', xa') \<Longrightarrow>
     \<exists>f. format kv = Some f \<and> \<not> (f = ''set'' \<and> py_eq (PBool True) ov) \<and>
         kv' = kv\<lparr>format := Some (if f = ''set'' then ''text'' else f)\<rparr> \<and>
         xa' = (if f = ''set'' then xa(''action'' \<mapsto> ''set'', ''format'' \<mapsto> ''text'')
                else xa(''format'' \<mapsto> f))"
proof (cases "format kv")
  case None
  assume "lset_format ov (kv, xa) = Inr (kv', xa')"
  with None show ?thesis by (simp add: lset_format_def)
next
  case (Some f)
  assume a: "lset_format ov (kv, xa) = Inr (kv', xa')"
  show ?thesis
  proof (cases "f = ''set''")
    case True
    with a Some show ?thesis by (cases "py_eq (PBool True) ov") (simp_all add: lset_format_def)
  next
    case False
    with a Some show ?thesis by (simp add: lset_format_def)
  qed
qed

lemma init_xattrs_action:
  "init_xattrs kv ''action'' =
     (if py_eq (PBool True) (overwrite_arg kv) then Some ''override''
      else if merge kv = Some (PBool True) then None else Some ''replace'')"
  by (simp add: init_xattrs_def Let_def)

lemma init_xattrs_format: "init_xattrs kv ''format'' = Some ''xml''"
  by (simp add: init_xattrs_def Let_def)

lemma lset_format_marker:
  assumes "lset_format (overwrite_arg kv0) (kv, init_xattrs kv0) = Inr (kv', xa')"
  shows "\<exists>f. format kv = Some f \<and> format kv' \<noteq> None \<and>
     xa' ''action'' =
       (if f = ''set'' then Some ''set''
        else if py_eq (PBool True) (overwrite_arg kv0) then Some ''override''
        else if merge kv0 = Some (PBool True) then None else Some ''replace'') \<and>
     xa' ''format'' = Some (if f = ''set'' then ''text'' else f)"
proof -
  from lset_format_Inr [OF assms] obtain f where
    f: "format kv = Some f"
    and kv': "kv' = kv\<lparr>format := Some (if f = ''set'' then ''text'' else f)\<rparr>"
    and xa': "xa' = (if f = ''set'' then (init_xattrs kv0)(''action'' \<mapsto> ''set'', ''format'' \<mapsto> ''text'')
                else (init_xattrs kv0)(''format'' \<mapsto> f))"
    by blast
  show ?thesis
  proof (cases "f = ''set''")
    case True
    with f kv' xa' show ?thesis by simp
  next
    case False
    with f kv' xa' show ?thesis by (simp add: init_xattrs_action)
  qed
qed

lemma load_fromfile_call:
  assumes "load_config c xa' \<in> set (fst (load_fromfile e ov p tx (kv, xa)))"
  shows "(format kv \<noteq> None \<and> xa' = xa) \<or>
         (format kv = None \<and> (\<exists>f kv'. lformat_byext p = Inr f \<and>
              lset_format ov (kv\<lparr>format := Some f\<rparr>, xa) = Inr (kv', xa')))"
proof (cases "lset_fromfile ov p (kv, xa)")
  case (Inl err)
  with assms show ?thesis by (simp add: load_fromfile_def)
next
  case (Inr st)
  obtain kv1 xa1 where st: "st = (kv1, xa1)" by (cases st)
  have "xa' = xa1"
  proof (cases "xa1 ''format'' = Some ''xml''")
    case True
    show ?thesis
    proof (cases "etree_XML e tx")
      case (Inl err)
      with assms Inr st True show ?thesis by (simp add: load_fromfile_def)
    next
      case (Inr x)
      with assms \<open>lset_fromfile ov p (kv, xa) = Inr st\<close> st True show ?thesis
        by (simp add: load_fromfile_def try_load_fst)
    qed
  next
    case False
    with assms Inr st show ?thesis by (simp add: load_fromfile_def try_load_fst)
  qed
  with Inr st show ?thesis
    by (cases "lformat_byext p"; cases "format kv") (simp_all add: lset_fromfile_def)
qed

lemma load_direct_call:
  assumes "load_config c xa' \<in> set (fst (load_direct e ov c0 (kv, xa)))"
  shows "((format kv \<noteq> None \<or> (\<forall>s. c0 \<noteq> Val (PStr s))) \<and> xa' = xa) \<or>
         (format kv = None \<and> (\<exists>s kv'. c0 = Val (PStr s) \<and> format (lset_from_rexp s kv) \<noteq> None \<and>
              lset_format ov (lset_from_rexp s kv, xa) = Inr (kv', xa')))"
proof (cases "\<exists>s. c0 = Val (PStr s)")
  case False
  then have "load_direct e ov c0 (kv, xa) = try_load e c0 xa"
    by (cases c0) (simp_all add: load_direct_def split: pyval.split)
  with assms False show ?thesis by (simp add: try_load_fst)
next
  case True
  then obtain s where s: "c0 = Val (PStr s)" by blast
  define r where "r = (if format kv = None then
                      (let kv' = lset_from_rexp s kv
                       in if format kv' \<noteq> None then lset_format ov (kv', xa)
                          else Inl (RuntimeError unresolved_msg))
                    else Inr (kv, xa))"
  have ld: "load_direct e ov c0 (kv, xa) =
     (case r of Inl err \<Rightarrow> ([], Inl err)
      | Inr (kv', rpc_xattrs') \<Rightarrow>
                  if format kv' = Some ''xml'' then
                    (case etree_XML e s of
                       Inl err \<Rightarrow> ([], Inl err)
                     | Inr x \<Rightarrow> try_load e (Element x) rpc_xattrs')
                  else try_load e c0 rpc_xattrs')"
    unfolding r_def s load_direct_def by simp
  show ?thesis
  proof (cases r)
    case (Inl err)
    with assms ld show ?thesis by simp
  next
    case (Inr st)
    obtain kv1 xa1 where st: "st = (kv1, xa1)" by (cases st)
    have "xa' = xa1"
    proof (cases "format kv1 = Some ''xml''")
      case True
      show ?thesis
      proof (cases "etree_XML e s")
        case (Inl err)
        with assms ld Inr st True show ?thesis by simp
      next
        case (Inr x)
        with assms ld \<open>r = Inr st\<close> st True show ?thesis by (simp add: try_load_fst)
      qed
    next
      case False
      with assms ld Inr st show ?thesis by (simp add: try_load_fst)
    qed
    with Inr st s show ?thesis
      by (cases "format kv"; cases "format (lset_from_rexp s kv)") (simp_all add: r_def Let_def)
  qed
qed

lemma lset_from_rexp_format:
  "format kv = None \<Longrightarrow> format (lset_from_rexp s kv) = Some f \<Longrightarrow>
     lset_from_rexp s kv = kv\<lparr>format := Some f\<rparr>"
  by (simp add: lset_from_rexp_def split: if_split_asm)

lemma load_source_call:
  assumes "load_config c xa' \<in> set (fst (load_source e ov vargs (kv, xa)))"
  shows "(format kv \<noteq> None \<and> xa' = xa) \<or>
         (format kv = None \<and> (\<exists>f. resolved_format e vargs kv = Some f \<and>
             ((\<exists>kv'. lset_format ov (kv\<lparr>format := Some f\<rparr>, xa) = Inr (kv', xa')) \<or>
              (f = ''xml'' \<and> xa' = xa \<and> (\<exists>c0 rest. vargs = c0 # rest \<and> (\<forall>s. c0 \<noteq> Val (PStr s)))))))"
proof (cases "format kv")
  case (Some f0)
  have "xa' = xa"
  proof (cases vargs)
    case (Cons c0 rest)
    with assms have "load_config c xa' \<in> set (fst (load_direct e ov c0 (kv, xa)))"
      by (simp add: load_source_def)
    from load_direct_call [OF this] Some show ?thesis by simp
  next
    case Nil
    note vn = Nil
    show ?thesis
    proof (cases "path kv")
      case (Some p)
      show ?thesis
      proof (cases "read_file e p")
        case (Inl err)
        with assms vn Some show ?thesis by (simp add: load_source_def)
      next
        case (Inr tx)
        with assms vn Some have "load_config c xa' \<in> set (fst (load_fromfile e ov p tx (kv, xa)))"
          by (simp add: load_source_def)
        from load_fromfile_call [OF this] \<open>format kv = Some f0\<close> show ?thesis by simp
      qed
    next
      case None
      note pn = None
      show ?thesis
      proof (cases "template_path kv")
        case (Some p)
        show ?thesis
        proof (cases "dev_Template e p")
          case (Inl err)
          with assms vn pn Some show ?thesis by (simp add: load_source_def)
        next
          case (Inr t)
          note tr = Inr
          show ?thesis
          proof (cases "render t (render_vars kv)")
            case (Inl err)
            with assms vn pn Some tr show ?thesis by (simp add: load_source_def)
          next
            case (Inr tx)
            with assms vn pn Some tr
            have "load_config c xa' \<in> set (fst (load_fromfile e ov p tx (kv, xa)))"
              by (simp add: load_source_def)
            from load_fromfile_call [OF this] \<open>format kv = Some f0\<close> show ?thesis by simp
          qed
        qed
      next
        case None
        note tpn = None
        show ?thesis
        proof (cases "template kv")
          case None
          with assms vn pn tpn show ?thesis by (simp add: load_source_def)
        next
          case (Some t)
          show ?thesis
          proof (cases "render t (render_vars kv)")
            case (Inl err)
            with assms vn pn tpn Some show ?thesis by (simp add: load_source_def)
          next
            case (Inr tx)
            with assms vn pn tpn Some
            have "load_config c xa' \<in> set (fst (load_fromfile e ov (filename t) tx (kv, xa)))"
              by (simp add: load_source_def)
            from load_fromfile_call [OF this] \<open>format kv = Some f0\<close> show ?thesis by simp
          qed
        qed
      qed
    qed
  qed
  with Some show ?thesis by simp
next
  case None
  note fn = None
  have "\<exists>f. resolved_format e vargs kv = Some f \<and>
             ((\<exists>kv'. lset_format ov (kv\<lparr>format := Some f\<rparr>, xa) = Inr (kv', xa')) \<or>
              (f = ''xml'' \<and> xa' = xa \<and> (\<exists>c0 rest. vargs = c0 # rest \<and> (\<forall>s. c0 \<noteq> Val (PStr s)))))"
  proof (cases vargs)
    case (Cons c0 rest)
    with assms have "load_config c xa' \<in> set (fst (load_direct e ov c0 (kv, xa)))"
      by (simp add: load_source_def)
    from load_direct_call [OF this] fn
    consider (obj) "\<forall>s. c0 \<noteq> Val (PStr s)" "xa' = xa"
      | (str) s kv' where "c0 = Val (PStr s)" "format (lset_from_rexp s kv) \<noteq> None"
          "lset_format ov (lset_from_rexp s kv, xa) = Inr (kv', xa')"
      by auto
    then show ?thesis
    proof cases
      case obj
      have "resolved_format e vargs kv = Some ''xml''"
        using obj(1) fn Cons
        by (cases c0) (simp_all add: resolved_format_def split: pyval.split)
      with obj Cons show ?thesis by simp
    next
      case str
      from str(2) obtain f where f: "format (lset_from_rexp s kv) = Some f" by blast
      from lset_from_rexp_format [OF fn f] str(3)
      have "lset_format ov (kv\<lparr>format := Some f\<rparr>, xa) = Inr (kv', xa')" by simp
      moreover have "resolved_format e vargs kv = Some f"
        using fn Cons str(1) f by (simp add: resolved_format_def)
      ultimately show ?thesis by blast
    qed
  next
    case Nil
    note vn = Nil
    show ?thesis
    proof (cases "path kv")
      case (Some p)
      show ?thesis
      proof (cases "read_file e p")
        case (Inl err)
        with assms vn Some show ?thesis by (simp add: load_source_def)
      next
        case (Inr tx)
        with assms vn Some have "load_config c xa' \<in> set (fst (load_fromfile e ov p tx (kv, xa)))"
          by (simp add: load_source_def)
        from load_fromfile_call [OF this] fn obtain f kv' where
          "lformat_byext p = Inr f" "lset_format ov (kv\<lparr>format := Some f\<rparr>, xa) = Inr (kv', xa')"
          by auto
        moreover from this(1) fn vn Some Inr have "resolved_format e vargs kv = Some f"
          by (simp add: resolved_format_def)
        ultimately show ?thesis by blast
      qed
    next
      case None
      note pn = None
      show ?thesis
      proof (cases "template_path kv")
        case (Some p)
        show ?thesis
        proof (cases "dev_Template e p")
          case (Inl err)
          with assms vn pn Some show ?thesis by (simp add: load_source_def)
        next
          case (Inr t)
          note tr = Inr
          show ?thesis
          proof (cases "render t (render_vars kv)")
            case (Inl err)
            with assms vn pn Some tr show ?thesis by (simp add: load_source_def)
          next
            case (Inr tx)
            with assms vn pn Some tr
            have "load_config c xa' \<in> set (fst (load_fromfile e ov p tx (kv, xa)))"
              by (simp add: load_source_def)
            from load_fromfile_call [OF this] fn obtain f kv' where
              "lformat_byext p = Inr f" "lset_format ov (kv\<lparr>format := Some f\<rparr>, xa) = Inr (kv', xa')"
              by auto
            moreover from this(1) fn vn pn Some tr Inr have "resolved_format e vargs kv = Some f"
              by (simp add: resolved_format_def)
            ultimately show ?thesis by blast
          qed
        qed
      next
        case None
        note tpn = None
        show ?thesis
        proof (cases "template kv")
          case None
          with assms vn pn tpn show ?thesis by (simp add: load_source_def)
        next
          case (Some t)
          show ?thesis
          proof (cases "render t (render_vars kv)")
            case (Inl err)
            with assms vn pn tpn Some show ?thesis by (simp add: load_source_def)
          next
            case (Inr tx)
            with assms vn pn tpn Some
            have "load_config c xa' \<in> set (fst (load_fromfile e ov (filename t) tx (kv, xa)))"
              by (simp add: load_source_def)
            from load_fromfile_call [OF this] fn obtain f kv' where
              "lformat_byext (filename t) = Inr f"
              "lset_format ov (kv\<lparr>format := Some f\<rparr>, xa) = Inr (kv', xa')"
              by auto
            moreover from this(1) fn vn pn tpn Some Inr have "resolved_format e vargs kv = Some f"
              by (simp add: resolved_format_def)
            ultimately show ?thesis by blast
          qed
        qed
      qed
    qed
  qed
  with fn show ?thesis by simp
qed

lemma load_call_marker:
  assumes "load_config c xa \<in> set (fst (load e vargs kv))"
  shows "\<exists>f. resolved_format e vargs kv = Some f \<and>
        xa ''action'' =
          (if f = ''set'' then Some ''set''
           else if py_eq (PBool True) (overwrite_arg kv) then Some ''override''
           else if merge kv = Some (PBool True) then None
           else Some ''replace'') \<and>
        xa ''format'' = Some (if f = ''set'' then ''text'' else f)"
proof -
  note a = assms
  let ?ov = "overwrite_arg kv"
  let ?M = "\<lambda>f. xa ''action'' =
          (if f = ''set'' then Some ''set''
           else if py_eq (PBool True) ?ov then Some ''override''
           else if merge kv = Some (PBool True) then None
           else Some ''replace'') \<and>
        xa ''format'' = Some (if f = ''set'' then ''text'' else f)"
  show "\<exists>f. resolved_format e vargs kv = Some f \<and> ?M f"
  proof (cases "format kv")
    case (Some f0)
    then have rf: "resolved_format e vargs kv = Some f0" by (simp add: resolved_format_def)
    show ?thesis
    proof (cases "lset_format ?ov (kv, init_xattrs kv)")
      case (Inl err)
      with a Some show ?thesis by (simp add: load_def)
    next
      case (Inr st)
      obtain kv1 xa1 where st: "st = (kv1, xa1)" by (cases st)
      from Inr st have l: "lset_format ?ov (kv, init_xattrs kv) = Inr (kv1, xa1)" by simp
      from lset_format_marker [OF l] Some
      have k1: "format kv1 \<noteq> None"
        and m: "xa1 ''action'' =
          (if f0 = ''set'' then Some ''set''
           else if py_eq (PBool True) ?ov then Some ''override''
           else if merge kv = Some (PBool True) then None
           else Some ''replace'')"
           "xa1 ''format'' = Some (if f0 = ''set'' then ''text'' else f0)"
        by auto
      from a Some l have "load_config c xa \<in> set (fst (load_source e ?ov vargs (kv1, xa1)))"
        by (simp add: load_def)
      from load_source_call [OF this] k1 have "xa = xa1" by simp
      with m rf show ?thesis by simp
    qed
  next
    case None
    with a have "load_config c xa \<in> set (fst (load_source e ?ov vargs (kv, init_xattrs kv)))"
      by (simp add: load_def)
    from load_source_call [OF this] None obtain f where
      rf: "resolved_format e vargs kv = Some f"
      and d: "(\<exists>kv'. lset_format ?ov (kv\<lparr>format := Some f\<rparr>, init_xattrs kv) = Inr (kv', xa)) \<or>
              (f = ''xml'' \<and> xa = init_xattrs kv)"
      by auto
    from d have "?M f"
    proof
      assume "\<exists>kv'. lset_format ?ov (kv\<lparr>format := Some f\<rparr>, init_xattrs kv) = Inr (kv', xa)"
      then obtain kv' where "lset_format ?ov (kv\<lparr>format := Some f\<rparr>, init_xattrs kv) = Inr (kv', xa)"
        by blast
      from lset_format_marker [OF this] show ?thesis by simp
    next
      assume "f = ''xml'' \<and> xa = init_xattrs kv"
      then show ?thesis by (simp add: init_xattrs_action init_xattrs_format)
    qed
    with rf show ?thesis by blast
  qed
qed

lemma shape_xml_example: "re_search rx_xml ''<a>b</a>''"
  by code_simp

lemma shape_set_example:
  "\<not> re_search rx_xml ''set system host-name foo''" "re_search rx_set ''set system host-name foo''"
  by code_simp+

lemma shape_text_example:
  "\<not> re_search rx_xml curly_example" "\<not> re_search rx_set curly_example"
  "re_search rx_text_open curly_example" "re_search rx_text_close curly_example"
  by code_simp+

lemma shape_none_example:
  "\<not> re_search rx_xml ''just a sentence''" "\<not> re_search rx_set ''just a sentence''"
  "\<not> re_search rx_text_open ''just a sentence''"
  by code_simp+

lemma lformat_byext_examples:
  "lformat_byext ''base.set'' = Inr ''set''" "lformat_byext ''etc/junos.d/base.conf'' = Inr ''text''"
  "lformat_byext ''snippet.xml'' = Inr ''xml''"
  "lformat_byext ''notes.foo'' = Inl (ValueError ''Unknown file contents from extension: .foo'')"
  by code_simp+

lemma load_examples:
  "fst (load (quiet_env ok_dev) [Val (PStr ''set system host-name foo'')]
          (no_load_kvargs\<lparr>merge := Some (PBool True)\<rparr>)) =
     [load_config (Val (PStr ''set system host-name foo'')) [''format'' \<mapsto> ''text'', ''action'' \<mapsto> ''set'']]"
  "fst (load (quiet_env ok_dev) [Element doc_example]
          (no_load_kvargs\<lparr>overwrite := Some (PBool True), merge := Some (PBool True)\<rparr>)) =
     [load_config (Element doc_example) [''format'' \<mapsto> ''xml'', ''action'' \<mapsto> ''override'']]"
  "fst (load (quiet_env ok_dev) [Element doc_example] (no_load_kvargs\<lparr>merge := Some (PBool True)\<rparr>)) =
     [load_config (Element doc_example) [''format'' \<mapsto> ''xml'']]"
  "fst (load (quiet_env ok_dev) [Element doc_example] no_load_kvargs) =
     [load_config (Element doc_example) [''format'' \<mapsto> ''xml'', ''action'' \<mapsto> ''replace'']]"
     apply (simp_all add: load_def load_source_def load_direct_def try_load_def Let_def
        no_load_kvargs_def init_xattrs_def overwrite_arg_def quiet_env_def ok_dev_def
        lset_from_rexp_def lset_format_def shape_set_example)
  apply (rule ext, simp)+
  done

lemma resolved_format_examples:
  "resolved_format (quiet_env ok_dev) [Val (PStr ''set system host-name foo'')]
     (no_load_kvargs\<lparr>merge := Some (PBool True)\<rparr>) = Some ''set''"
  "resolved_format (quiet_env ok_dev) [Val (PStr ''set system host-name foo'')]
     (no_load_kvargs\<lparr>overwrite := Some (PStr ''true'')\<rparr>) = Some ''set''"
  "resolved_format (quiet_env ok_dev) [Element doc_example] no_load_kvargs = Some ''xml''"
  by (simp_all add: resolved_format_def no_load_kvargs_def lset_from_rexp_def shape_set_example)

section \<open>set-style content cannot overwrite\<close>

lemma lset_format_conflict:
  "py_eq (PBool True) ov \<Longrightarrow> format kv = Some ''set'' \<Longrightarrow>
     lset_format ov (kv, xa) = Inl (ValueError conflict_msg)"
  by (simp add: lset_format_def)

lemma load_fromfile_conflict:
  "py_eq (PBool True) ov \<Longrightarrow> format kv = None \<Longrightarrow> lformat_byext p = Inr ''set'' \<Longrightarrow>
     load_fromfile e ov p tx (kv, xa) = ([], Inl (ValueError conflict_msg))"
  by (simp add: load_fromfile_def lset_fromfile_def lset_format_conflict)

lemma load_direct_conflict:
  "py_eq (PBool True) ov \<Longrightarrow> format kv = None \<Longrightarrow> format (lset_from_rexp s kv) = Some ''set'' \<Longrightarrow>
     load_direct e ov (Val (PStr s)) (kv, xa) = ([], Inl (ValueError conflict_msg))"
  by (simp add: load_direct_def Let_def lset_format_conflict)

lemma lformat_byext_set: "(case lformat_byext p of Inl err \<Rightarrow> None | Inr f \<Rightarrow> Some f) = Some ''set''
   \<Longrightarrow> lformat_byext p = Inr ''set''"
  by (cases "lformat_byext p") simp_all

lemma load_source_conflict:
  assumes ov: "py_eq (PBool True) ov" and fn: "format kv = None"
    and rf: "resolved_format e vargs kv = Some ''set''"
  shows "load_source e ov vargs (kv, xa) = ([], Inl (ValueError conflict_msg))"
proof (cases vargs)
  case (Cons c0 rest)
  show ?thesis
  proof (cases "\<exists>s. c0 = Val (PStr s)")
    case True
    then obtain s where s: "c0 = Val (PStr s)" by blast
    with rf fn Cons have "format (lset_from_rexp s kv) = Some ''set''"
      by (simp add: resolved_format_def)
    from load_direct_conflict [OF ov fn this] s Cons show ?thesis by (simp add: load_source_def)
  next
    case False
    then have "resolved_format e vargs kv = Some ''xml''"
      using fn Cons by (cases c0) (simp_all add: resolved_format_def split: pyval.split)
    with rf show ?thesis by simp
  qed
next
  case Nil
  note vn = Nil
  show ?thesis
  proof (cases "path kv")
    case (Some p)
    show ?thesis
    proof (cases "read_file e p")
      case (Inl err)
      with rf fn vn Some show ?thesis by (simp add: resolved_format_def)
    next
      case (Inr tx)
      with rf fn vn Some have "lformat_byext p = Inr ''set''"
        by (simp add: resolved_format_def lformat_byext_set)
      from load_fromfile_conflict [OF ov fn this] vn Some Inr show ?thesis
        by (simp add: load_source_def)
    qed
  next
    case None
    note pn = None
    show ?thesis
    proof (cases "template_path kv")
      case (Some p)
      show ?thesis
      proof (cases "dev_Template e p")
        case (Inl err)
        with rf fn vn pn Some show ?thesis by (simp add: resolved_format_def)
      next
        case (Inr t)
        note tr = Inr
        show ?thesis
        proof (cases "render t (render_vars kv)")
          case (Inl err)
          with rf fn vn pn Some tr show ?thesis by (simp add: resolved_format_def)
        next
          case (Inr tx)
          with rf fn vn pn Some tr have "lformat_byext p = Inr ''set''"
            by (simp add: resolved_format_def lformat_byext_set)
          from load_fromfile_conflict [OF ov fn this] vn pn Some tr Inr show ?thesis
            by (simp add: load_source_def)
        qed
      qed
    next
      case None
      note tpn = None
      show ?thesis
      proof (cases "template kv")
        case None
        with rf fn vn pn tpn show ?thesis by (simp add: resolved_format_def)
      next
        case (Some t)
        show ?thesis
        proof (cases "render t (render_vars kv)")
          case (Inl err)
          with rf fn vn pn tpn Some show ?thesis by (simp add: resolved_format_def)
        next
          case (Inr tx)
          with rf fn vn pn tpn Some have "lformat_byext (filename t) = Inr ''set''"
            by (simp add: resolved_format_def lformat_byext_set)
          from load_fromfile_conflict [OF ov fn this] vn pn tpn Some Inr show ?thesis
            by (simp add: load_source_def)
        qed
      qed
    qed
  qed
qed

text \<open>
  C2. When \<^verbatim>\<open>overwrite\<close> equals \<^verbatim>\<open>True\<close> and the resolved format is \<^verbatim>\<open>set\<close>, \<open>load\<close> raises
  \<open>ValueError\<close> with the message \<^verbatim>\<open>conflicting args, cannot use 'set' with 'overwrite'\<close>,
  and it has issued no remote call.
\<close>

theorem load_set_overwrite_conflict:
  "py_eq (PBool True) (overwrite_arg kv) \<and> resolved_format e vargs kv = Some ''set'' \<longrightarrow>
     load e vargs kv = ([], Inl (ValueError conflict_msg))"
proof
  assume a: "py_eq (PBool True) (overwrite_arg kv) \<and> resolved_format e vargs kv = Some ''set''"
  show "load e vargs kv = ([], Inl (ValueError conflict_msg))"
  proof (cases "format kv")
    case (Some f0)
    with a have "f0 = ''set''" by (simp add: resolved_format_def)
    with a Some show ?thesis by (simp add: load_def lset_format_conflict)
  next
    case None
    with a load_source_conflict [of "overwrite_arg kv" kv e vargs "init_xattrs kv"]
    show ?thesis by (simp add: load_def)
  qed
qed

theorem load_set_overwrite_conflict_witness:
  "py_eq (PBool True) (overwrite_arg (no_load_kvargs\<lparr>overwrite := Some (PBool True)\<rparr>)) \<and>
   resolved_format (quiet_env ok_dev) [Val (PStr ''set system host-name foo'')]
     (no_load_kvargs\<lparr>overwrite := Some (PBool True)\<rparr>) = Some ''set'' \<and>
   load (quiet_env ok_dev) [Val (PStr ''set system host-name foo'')]
     (no_load_kvargs\<lparr>overwrite := Some (PBool True)\<rparr>) = ([], Inl (ValueError conflict_msg)) \<and>
   resolved_format (quiet_env ok_dev) []
     (no_load_kvargs\<lparr>overwrite := Some (PInt 1), path := Some ''base.set''\<rparr>) = Some ''set'' \<and>
   load (quiet_env ok_dev) []
     (no_load_kvargs\<lparr>overwrite := Some (PInt 1), path := Some ''base.set''\<rparr>)
     = ([], Inl (ValueError conflict_msg))"
  using load_set_overwrite_conflict [of "no_load_kvargs\<lparr>overwrite := Some (PBool True)\<rparr>"
          "quiet_env ok_dev" "[Val (PStr ''set system host-name foo'')]"]
    load_set_overwrite_conflict [of "no_load_kvargs\<lparr>overwrite := Some (PInt 1), path := Some ''base.set''\<rparr>"
          "quiet_env ok_dev" "[]"]
  by (simp add: resolved_format_def no_load_kvargs_def overwrite_arg_def lset_from_rexp_def
        shape_set_example quiet_env_def lformat_byext_examples)

section \<open>What the matcher computes\<close>

text \<open>
  On a pattern without anchors the matcher ends exactly after the prefixes of the
  subject that belong to the pattern's language.
\<close>

lemma star_from_sound:
  assumes f: "\<And>q u. snd ` set (f (q, u)) = {v. \<exists>x \<in> A. u = x @ v}"
  shows "v \<in> snd ` set (star_from n f (q, u)) \<Longrightarrow> \<exists>x \<in> star_lang A. u = x @ v"
proof (induction n arbitrary: q u)
  case 0
  then have "u = [] @ v" by simp
  then show ?case using star_lang.nil by blast
next
  case (Suc n)
  from Suc.prems consider "v = u"
    | p where "p \<in> set (f (q, u))" "v \<in> snd ` set (star_from n f p)"
    by auto
  then show ?case
  proof cases
    case 1
    then have "u = [] @ v" by simp
    then show ?thesis using star_lang.nil by blast
  next
    case 2
    obtain q' u' where p: "p = (q', u')" by (cases p)
    from 2(1) p have "u' \<in> snd ` set (f (q, u))" by force
    with f obtain x where x: "x \<in> A" "u = x @ u'" by auto
    from Suc.IH [of q' u'] 2(2) p obtain y where y: "y \<in> star_lang A" "u' = y @ v" by auto
    from x y have "x @ y \<in> star_lang A" "u = (x @ y) @ v" by (auto intro: star_lang.step)
    then show ?thesis by blast
  qed
qed

lemma star_from_complete:
  assumes f: "\<And>q u. snd ` set (f (q, u)) = {v. \<exists>x \<in> A. u = x @ v}"
    and x: "x \<in> star_lang A"
  shows "u = x @ v \<Longrightarrow> length u \<le> n \<Longrightarrow> v \<in> snd ` set (star_from n f (q, u))"
  using x
proof (induction x arbitrary: u n q rule: star_lang.induct)
  case nil
  then show ?case by (cases n) auto
next
  case (step x y)
  show ?case
  proof (cases "x = []")
    case True
    with step.prems step.IH [of u n q] show ?thesis by simp
  next
    case False
    with step.prems obtain m where n: "n = Suc m" by (cases n) auto
    from step.hyps(1) step.prems(1) have "y @ v \<in> snd ` set (f (q, u))" using f by auto
    then obtain q' where p: "(q', y @ v) \<in> set (f (q, u))" by force
    from False have lx: "1 \<le> length x" by (cases x) simp_all
    from step.prems(1) have lu: "length u = length x + length (y @ v)" by simp
    from lx lu step.prems(2) n have l: "length (y @ v) < length u" "length (y @ v) \<le> m"
      by linarith+
    from step.IH [OF refl l(2), of q'] have "v \<in> snd ` set (star_from m f (q', y @ v))" .
    with p l(1) show ?thesis unfolding n by force
  qed
qed

lemma ends_seq:
  assumes a: "\<And>q u. ends a (q, u) = {v. \<exists>x \<in> lang a. u = x @ v}"
    and b: "\<And>q u. ends b (q, u) = {v. \<exists>x \<in> lang b. u = x @ v}"
  shows "ends (Seq a b) (q, u) = {v. \<exists>x \<in> lang (Seq a b). u = x @ v}"
proof (rule set_eqI, rule iffI)
  fix v
  assume "v \<in> ends (Seq a b) (q, u)"
  then obtain p where p: "p \<in> set (rx_match a (q, u))" "v \<in> ends b p"
    by (auto simp: ends_def)
  obtain q' w where pw: "p = (q', w)" by (cases p)
  with p(1) have "w \<in> ends a (q, u)" by (force simp: ends_def)
  with a obtain x where x: "x \<in> lang a" "u = x @ w" by auto
  from p(2) pw b obtain y where y: "y \<in> lang b" "w = y @ v" by auto
  from x y have "x @ y \<in> lang (Seq a b)" "u = (x @ y) @ v" by auto
  then show "v \<in> {v. \<exists>x \<in> lang (Seq a b). u = x @ v}" by blast
next
  fix v
  assume "v \<in> {v. \<exists>x \<in> lang (Seq a b). u = x @ v}"
  then obtain x y where xy: "x \<in> lang a" "y \<in> lang b" "u = (x @ y) @ v" by auto
  then have "y @ v \<in> ends a (q, u)" using a by auto
  then obtain q' where p: "(q', y @ v) \<in> set (rx_match a (q, u))" by (force simp: ends_def)
  from xy(2) have "v \<in> ends b (q', y @ v)" using b by auto
  with p show "v \<in> ends (Seq a b) (q, u)" by (force simp: ends_def)
qed

theorem rx_match_lang:
  "anchor_free r \<Longrightarrow> ends r (q, u) = {v. \<exists>x \<in> lang r. u = x @ v}"
proof (induction r arbitrary: q u)
  case (Sat P)
  show ?case by (cases u) (auto simp: ends_def)
next
  case Eps
  show ?case by (simp add: ends_def)
next
  case (Seq a b)
  then have a: "\<And>q u. ends a (q, u) = {v. \<exists>x \<in> lang a. u = x @ v}"
    and b: "\<And>q u. ends b (q, u) = {v. \<exists>x \<in> lang b. u = x @ v}" by simp_all
  show ?case by (rule ends_seq [OF a b])
next
  case (Alt a b)
  then have a: "ends a (q, u) = {v. \<exists>x \<in> lang a. u = x @ v}"
    and b: "ends b (q, u) = {v. \<exists>x \<in> lang b. u = x @ v}" by simp_all
  have "ends (Alt a b) (q, u) = ends a (q, u) \<union> ends b (q, u)" by (simp add: ends_def image_Un)
  then show ?case unfolding a b by auto
next
  case (Star a)
  then have a: "\<And>q u. snd ` set (rx_match a (q, u)) = {v. \<exists>x \<in> lang a. u = x @ v}"
    by (simp add: ends_def)
  show ?case
  proof (rule set_eqI, rule iffI)
    fix v
    assume "v \<in> ends (Star a) (q, u)"
    then have "v \<in> snd ` set (star_from (length u) (rx_match a) (q, u))" by (simp add: ends_def)
    from star_from_sound [of "rx_match a" "lang a", OF a this]
    show "v \<in> {v. \<exists>x \<in> lang (Star a). u = x @ v}" by simp
  next
    fix v
    assume "v \<in> {v. \<exists>x \<in> lang (Star a). u = x @ v}"
    then obtain x where x: "x \<in> star_lang (lang a)" "u = x @ v" by auto
    from star_from_complete [of "rx_match a" "lang a", OF a x(1) x(2) le_refl, of q]
    show "v \<in> ends (Star a) (q, u)" by (simp add: ends_def)
  qed
next
  case (Caret m)
  then show ?case by simp
next
  case (Dollar m)
  then show ?case by simp
qed

lemma positions_set:
  "set (positions q s) = {(if pre = [] then q else Some (last pre), v) |pre v. s = pre @ v}"
proof (induction s arbitrary: q)
  case Nil
  show ?case by auto
next
  case (Cons c cs)
  show ?case
  proof (rule set_eqI, rule iffI)
    fix p
    assume "p \<in> set (positions q (c # cs))"
    then consider "p = (q, c # cs)" | "p \<in> set (positions (Some c) cs)" by auto
    then show "p \<in> {(if pre = [] then q else Some (last pre), v) |pre v. c # cs = pre @ v}"
    proof cases
      case 1
      then have "p = (if [] = [] then q else Some (last []), c # cs) \<and> c # cs = [] @ (c # cs)"
        by simp
      then show ?thesis by blast
    next
      case 2
      with Cons.IH [of "Some c"] obtain pre v where
        pv: "p = (if pre = [] then Some c else Some (last pre), v)" "cs = pre @ v" by auto
      then have "p = (if c # pre = [] then q else Some (last (c # pre)), v) \<and> c # cs = (c # pre) @ v"
        by simp
      then show ?thesis by blast
    qed
  next
    fix p
    assume "p \<in> {(if pre = [] then q else Some (last pre), v) |pre v. c # cs = pre @ v}"
    then obtain pre v where
      pv: "p = (if pre = [] then q else Some (last pre), v)" "c # cs = pre @ v" by auto
    show "p \<in> set (positions q (c # cs))"
    proof (cases pre)
      case Nil
      with pv have "p = (q, c # cs)" by simp
      then show ?thesis by simp
    next
      case (Cons d ds)
      with pv have "d = c" "cs = ds @ v" by simp_all
      with pv Cons have "p = (if ds = [] then Some c else Some (last ds), v)" by simp
      with \<open>cs = ds @ v\<close> have "p \<in> set (positions (Some c) cs)"
        unfolding Cons.IH [of "Some c"] by blast
      then show ?thesis by simp
    qed
  qed
qed

lemma re_search_iff:
  "re_search r s =
     (\<exists>pre v. s = pre @ v \<and> rx_match r (if pre = [] then None else Some (last pre), v) \<noteq> [])"
  unfolding re_search_def list_ex_iff positions_set by auto

lemma seq_nonempty_lang:
  assumes a: "anchor_free a" and b: "\<And>q u. (rx_match b (q, u) \<noteq> []) = B u"
  shows "(rx_match (Seq a b) (q, u) \<noteq> []) = (\<exists>x v. u = x @ v \<and> x \<in> lang a \<and> B v)"
proof
  assume "rx_match (Seq a b) (q, u) \<noteq> []"
  then obtain p where p: "p \<in> set (rx_match a (q, u))" "rx_match b p \<noteq> []"
    by (auto simp: concat_eq_Nil_conv)
  obtain q' v where pv: "p = (q', v)" by (cases p)
  with p(1) have "v \<in> ends a (q, u)" by (force simp: ends_def)
  with rx_match_lang [OF a] obtain x where "x \<in> lang a" "u = x @ v" by auto
  moreover from p(2) pv b have "B v" by simp
  ultimately show "\<exists>x v. u = x @ v \<and> x \<in> lang a \<and> B v" by blast
next
  assume "\<exists>x v. u = x @ v \<and> x \<in> lang a \<and> B v"
  then obtain x v where xv: "u = x @ v" "x \<in> lang a" "B v" by blast
  then have "v \<in> ends a (q, u)" using rx_match_lang [OF a, of q u] by auto
  then obtain q' where p: "(q', v) \<in> set (rx_match a (q, u))" by (force simp: ends_def)
  from xv(3) b have "rx_match b (q', v) \<noteq> []" by simp
  with p show "rx_match (Seq a b) (q, u) \<noteq> []" by (auto simp: concat_eq_Nil_conv)
qed

lemma eps_nonempty: "(rx_match Eps (q, u) \<noteq> []) = True"
  by simp

lemma dollar_eps_nonempty:
  "(rx_match (Seq (Dollar m) Eps) (q, u) \<noteq> []) =
     (u = [] \<or> u = [CHR 0x0A] \<or> (m \<and> take 1 u = [CHR 0x0A]))"
  by simp

lemma caret_seq_nonempty:
  "(rx_match (Seq (Caret m) r) (q, u) \<noteq> []) =
     ((q = None \<or> (m \<and> q = Some (CHR 0x0A))) \<and> rx_match r (q, u) \<noteq> [])"
  by auto

lemma star_lang_sat: "(x \<in> star_lang {[c] |c. P c}) = (\<forall>c \<in> set x. P c)"
proof
  assume "x \<in> star_lang {[c] |c. P c}"
  then show "\<forall>c \<in> set x. P c" by (induction rule: star_lang.induct) auto
next
  assume "\<forall>c \<in> set x. P c"
  then show "x \<in> star_lang {[c] |c. P c}"
  proof (induction x)
    case Nil
    show ?case by (rule star_lang.nil)
  next
    case (Cons c cs)
    then have "[c] \<in> {[c] |c. P c}" "cs \<in> star_lang {[c] |c. P c}" by auto
    then have "[c] @ cs \<in> star_lang {[c] |c. P c}" by (rule star_lang.step)
    then show ?case by simp
  qed
qed

lemma lang_star_sat: "lang (Star (Sat P)) = {x. \<forall>c \<in> set x. P c}"
  by (auto simp: star_lang_sat)

lemma lang_plus_sat: "lang (rx_plus (Sat P)) = {x. x \<noteq> [] \<and> (\<forall>c \<in> set x. P c)}"
proof (rule set_eqI, rule iffI)
  fix x
  assume "x \<in> lang (rx_plus (Sat P))"
  then obtain c y where "x = [c] @ y" "P c" "y \<in> star_lang {[c] |c. P c}"
    by (auto simp: rx_plus_def)
  then show "x \<in> {x. x \<noteq> [] \<and> (\<forall>c \<in> set x. P c)}" by (simp add: star_lang_sat)
next
  fix x
  assume "x \<in> {x. x \<noteq> [] \<and> (\<forall>c \<in> set x. P c)}"
  then obtain c y where "x = c # y" "P c" "\<forall>d \<in> set y. P d" by (cases x) auto
  then have "x = [c] @ y \<and> [c] \<in> lang (Sat P) \<and> y \<in> lang (Star (Sat P))"
    by (simp add: star_lang_sat)
  then show "x \<in> lang (rx_plus (Sat P))" unfolding rx_plus_def lang.simps(3) by blast
qed

lemma lang_chr: "lang (rx_chr c) = {[c]}"
  by (auto simp: rx_chr_def)

lemma lang_lit: "lang (rx_lit kw) = {kw}"
proof (induction kw)
  case Nil
  show ?case by (simp add: rx_lit_def rx_seqs_def)
next
  case (Cons c kw)
  have "rx_lit (c # kw) = Seq (rx_chr c) (rx_lit kw)" by (simp add: rx_lit_def rx_seqs_def)
  with Cons show ?case by (simp add: lang_chr)
qed

lemma anchor_free_basics [simp]:
  "anchor_free (rx_chr c)" "anchor_free (rx_plus (Sat P))"
  by (simp_all add: rx_chr_def rx_plus_def)

lemma anchor_free_lit [simp]: "anchor_free (rx_lit kw)"
proof (induction kw)
  case Nil
  show ?case by (simp add: rx_lit_def rx_seqs_def)
next
  case (Cons c kw)
  have "rx_lit (c # kw) = Seq (rx_chr c) (rx_lit kw)" by (simp add: rx_lit_def rx_seqs_def)
  with Cons show ?case by simp
qed

text \<open>
  The four patterns of \<^verbatim>\<open>_lset_from_rexp\<close>, read as shapes of the subject string.
\<close>

lemma re_search_caret_start:
  "re_search (Seq (Caret False) r) s = (rx_match r (None, s) \<noteq> [])"
proof -
  have "re_search (Seq (Caret False) r) s =
      (\<exists>pre v. s = pre @ v \<and> pre = [] \<and> rx_match r (None, v) \<noteq> [])"
    unfolding re_search_iff caret_seq_nonempty by (auto split: if_split_asm)
  then show ?thesis by simp
qed

theorem rx_set_shape:
  "re_search rx_set s =
     (\<exists>w kw c rest. s = w @ kw @ c # rest \<and> (\<forall>d \<in> set w. is_space d) \<and>
        kw \<in> {''set'', ''delete'', ''replace'', ''rename''} \<and> is_space c)"
proof -
  let ?alt = "Alt (rx_lit ''set'') (Alt (rx_lit ''delete'') (Alt (rx_lit ''replace'') (rx_lit ''rename'')))"
  let ?B3 = "\<lambda>u. \<exists>c rest. u = c # rest \<and> is_space c"
  let ?B2 = "\<lambda>u. \<exists>x v. u = x @ v \<and> x \<in> lang ?alt \<and> ?B3 v"
  have r: "rx_set = Seq (Caret False) (Seq (Star (Sat is_space)) (Seq ?alt (Seq (Sat is_space) Eps)))"
    by (simp add: rx_set_def rx_seqs_def)
  have b3: "(rx_match (Seq (Sat is_space) Eps) (q, u) \<noteq> []) = ?B3 u" for q u
    by (cases u) simp_all
  have b2: "(rx_match (Seq ?alt (Seq (Sat is_space) Eps)) (q, u) \<noteq> []) = ?B2 u" for q u
    by (rule seq_nonempty_lang [OF _ b3]) simp
  have "re_search rx_set s = (\<exists>x v. s = x @ v \<and> x \<in> lang (Star (Sat is_space)) \<and> ?B2 v)"
    unfolding r re_search_caret_start
    by (rule seq_nonempty_lang [OF _ b2]) simp
  also have "\<dots> = (\<exists>w kw c rest. s = w @ kw @ c # rest \<and> (\<forall>d \<in> set w. is_space d) \<and>
        kw \<in> {''set'', ''delete'', ''replace'', ''rename''} \<and> is_space c)"
  proof -
    have la: "lang ?alt = {''set'', ''delete'', ''replace'', ''rename''}"
      by (auto simp: lang_lit)
    show ?thesis
      unfolding lang_star_sat la
    proof (intro iffI; elim exE conjE)
      fix x v xa va c rest
      assume a: "s = x @ v" "x \<in> {x. \<forall>c \<in> set x. is_space c}" "v = xa @ va"
        "xa \<in> {''set'', ''delete'', ''replace'', ''rename''}" "va = c # rest" "is_space c"
      from a(1,3,5) have "s = x @ xa @ c # rest" by simp
      moreover from a(2) have "\<forall>d \<in> set x. is_space d" by simp
      ultimately show "\<exists>w kw c rest. s = w @ kw @ c # rest \<and> (\<forall>d \<in> set w. is_space d) \<and>
          kw \<in> {''set'', ''delete'', ''replace'', ''rename''} \<and> is_space c"
        using a(4,6) by blast
    next
      fix w kw c rest
      assume a: "s = w @ kw @ c # rest" "\<forall>d \<in> set w. is_space d"
        "kw \<in> {''set'', ''delete'', ''replace'', ''rename''}" "is_space c"
      from a(2) have "w \<in> {x. \<forall>c \<in> set x. is_space c}" by simp
      moreover from a(3,4) have "\<exists>xa va. kw @ c # rest = xa @ va \<and>
            xa \<in> {''set'', ''delete'', ''replace'', ''rename''} \<and>
            (\<exists>c rest. va = c # rest \<and> is_space c)" by blast
      ultimately show "\<exists>x v. s = x @ v \<and> x \<in> {x. \<forall>c \<in> set x. is_space c} \<and>
         (\<exists>xa va. v = xa @ va \<and>
            xa \<in> {''set'', ''delete'', ''replace'', ''rename''} \<and>
            (\<exists>c rest. va = c # rest \<and> is_space c))"
        using a(1) by blast
    qed
  qed
  finally show ?thesis .
qed

theorem rx_text_open_shape:
  "re_search rx_text_open s =
     (\<exists>a w b sp rest. s = a @ w @ b @ sp @ CHR ''{'' # rest \<and>
        (\<forall>c \<in> set a. is_letter_or_colon c) \<and> (\<forall>c \<in> set w. is_space c) \<and>
        b \<noteq> [] \<and> (\<forall>c \<in> set b. is_word c) \<and> sp \<noteq> [] \<and> (\<forall>c \<in> set sp. is_space c))"
proof -
  let ?B5 = "\<lambda>u. \<exists>rest. u = CHR ''{'' # rest"
  let ?B4 = "\<lambda>u. \<exists>x v. u = x @ v \<and> x \<in> lang (rx_plus (Sat is_space)) \<and> ?B5 v"
  let ?B3 = "\<lambda>u. \<exists>x v. u = x @ v \<and> x \<in> lang (rx_plus (Sat is_word)) \<and> ?B4 v"
  let ?B2 = "\<lambda>u. \<exists>x v. u = x @ v \<and> x \<in> lang (Star (Sat is_space)) \<and> ?B3 v"
  let ?B1 = "\<lambda>u. \<exists>x v. u = x @ v \<and> x \<in> lang (Star (Sat is_letter_or_colon)) \<and> ?B2 v"
  have r: "rx_text_open = Seq (Caret False) (Seq (Star (Sat is_letter_or_colon))
      (Seq (Star (Sat is_space)) (Seq (rx_plus (Sat is_word)) (Seq (rx_plus (Sat is_space))
         (Seq (rx_chr CHR ''{'') Eps)))))"
    by (simp add: rx_text_open_def rx_seqs_def)
  have b5: "(rx_match (Seq (rx_chr CHR ''{'') Eps) (q, u) \<noteq> []) = ?B5 u" for q u
    by (cases u) (simp_all add: rx_chr_def)
  have b4: "(rx_match (Seq (rx_plus (Sat is_space)) (Seq (rx_chr CHR ''{'') Eps)) (q, u) \<noteq> []) = ?B4 u"
    for q u
    by (rule seq_nonempty_lang [OF _ b5]) simp
  have b3: "(rx_match (Seq (rx_plus (Sat is_word)) (Seq (rx_plus (Sat is_space))
         (Seq (rx_chr CHR ''{'') Eps))) (q, u) \<noteq> []) = ?B3 u" for q u
    by (rule seq_nonempty_lang [OF _ b4]) simp
  have b2: "(rx_match (Seq (Star (Sat is_space)) (Seq (rx_plus (Sat is_word)) (Seq (rx_plus (Sat is_space))
         (Seq (rx_chr CHR ''{'') Eps)))) (q, u) \<noteq> []) = ?B2 u" for q u
    by (rule seq_nonempty_lang [OF _ b3]) simp
  have "re_search rx_text_open s = ?B1 s"
    unfolding r re_search_caret_start
    by (rule seq_nonempty_lang [OF _ b2]) simp
  also have "\<dots> = (\<exists>a w b sp rest. s = a @ w @ b @ sp @ CHR ''{'' # rest \<and>
        (\<forall>c \<in> set a. is_letter_or_colon c) \<and> (\<forall>c \<in> set w. is_space c) \<and>
        b \<noteq> [] \<and> (\<forall>c \<in> set b. is_word c) \<and> sp \<noteq> [] \<and> (\<forall>c \<in> set sp. is_space c))"
  proof (intro iffI; elim exE conjE)
    fix a v1 w v2 b v3 sp v4 rest
    assume e: "s = a @ v1" "v1 = w @ v2" "v2 = b @ v3" "v3 = sp @ v4" "v4 = CHR ''{'' # rest"
      and m: "a \<in> lang (Star (Sat is_letter_or_colon))" "w \<in> lang (Star (Sat is_space))"
        "b \<in> lang (rx_plus (Sat is_word))" "sp \<in> lang (rx_plus (Sat is_space))"
    from e have "s = a @ w @ b @ sp @ CHR ''{'' # rest" by simp
    moreover from m have "(\<forall>c \<in> set a. is_letter_or_colon c) \<and> (\<forall>c \<in> set w. is_space c) \<and>
        b \<noteq> [] \<and> (\<forall>c \<in> set b. is_word c) \<and> sp \<noteq> [] \<and> (\<forall>c \<in> set sp. is_space c)"
      unfolding lang_star_sat lang_plus_sat by simp
    ultimately have "s = a @ w @ b @ sp @ CHR ''{'' # rest \<and>
        (\<forall>c \<in> set a. is_letter_or_colon c) \<and> (\<forall>c \<in> set w. is_space c) \<and>
        b \<noteq> [] \<and> (\<forall>c \<in> set b. is_word c) \<and> sp \<noteq> [] \<and> (\<forall>c \<in> set sp. is_space c)"
      by (rule conjI)
    then show "\<exists>a w b sp rest. s = a @ w @ b @ sp @ CHR ''{'' # rest \<and>
        (\<forall>c \<in> set a. is_letter_or_colon c) \<and> (\<forall>c \<in> set w. is_space c) \<and>
        b \<noteq> [] \<and> (\<forall>c \<in> set b. is_word c) \<and> sp \<noteq> [] \<and> (\<forall>c \<in> set sp. is_space c)"
      by (intro exI)
  next
    fix a w b sp rest
    assume e: "s = a @ w @ b @ sp @ CHR ''{'' # rest"
      and m: "\<forall>c \<in> set a. is_letter_or_colon c" "\<forall>c \<in> set w. is_space c"
        "b \<noteq> []" "\<forall>c \<in> set b. is_word c" "sp \<noteq> []" "\<forall>c \<in> set sp. is_space c"
    from m have l: "a \<in> lang (Star (Sat is_letter_or_colon))" "w \<in> lang (Star (Sat is_space))"
        "b \<in> lang (rx_plus (Sat is_word))" "sp \<in> lang (rx_plus (Sat is_space))"
      unfolding lang_star_sat lang_plus_sat by simp_all
    have b5: "?B5 (CHR ''{'' # rest)" by (intro exI) (rule refl)
    from l(4) b5 have "sp @ CHR ''{'' # rest = sp @ CHR ''{'' # rest \<and>
        sp \<in> lang (rx_plus (Sat is_space)) \<and> ?B5 (CHR ''{'' # rest)" by simp
    then have b4: "?B4 (sp @ CHR ''{'' # rest)" by (intro exI)
    from l(3) b4 have "b @ sp @ CHR ''{'' # rest = b @ sp @ CHR ''{'' # rest \<and>
        b \<in> lang (rx_plus (Sat is_word)) \<and> ?B4 (sp @ CHR ''{'' # rest)" by simp
    then have b3: "?B3 (b @ sp @ CHR ''{'' # rest)" by (intro exI)
    from l(2) b3 have "w @ b @ sp @ CHR ''{'' # rest = w @ b @ sp @ CHR ''{'' # rest \<and>
        w \<in> lang (Star (Sat is_space)) \<and> ?B3 (b @ sp @ CHR ''{'' # rest)" by simp
    then have b2: "?B2 (w @ b @ sp @ CHR ''{'' # rest)" by (intro exI)
    from e l(1) b2 have "s = a @ w @ b @ sp @ CHR ''{'' # rest \<and>
        a \<in> lang (Star (Sat is_letter_or_colon)) \<and> ?B2 (w @ b @ sp @ CHR ''{'' # rest)" by simp
    then show "?B1 s" by (intro exI)
  qed
  finally show ?thesis .
qed

theorem rx_text_close_shape:
  "re_search rx_text_close s = (\<exists>pre w. s = pre @ CHR ''}'' # w \<and> (\<forall>c \<in> set w. is_space c))"
proof -
  let ?B4 = "\<lambda>u. u = [] \<or> u = [CHR 0x0A]"
  let ?B3 = "\<lambda>u. \<exists>x v. u = x @ v \<and> x \<in> lang (Star (Sat is_space)) \<and> ?B4 v"
  let ?B2 = "\<lambda>u. \<exists>x v. u = x @ v \<and> x \<in> lang (rx_chr CHR ''}'') \<and> ?B3 v"
  let ?B1 = "\<lambda>u. \<exists>x v. u = x @ v \<and> x \<in> lang (Star (Sat is_dot)) \<and> ?B2 v"
  have r: "rx_text_close = Seq (Star (Sat is_dot)) (Seq (rx_chr CHR ''}'')
      (Seq (Star (Sat is_space)) (Seq (Dollar False) Eps)))"
    by (simp add: rx_text_close_def rx_seqs_def)
  have b4: "(rx_match (Seq (Dollar False) Eps) (q, u) \<noteq> []) = ?B4 u" for q u
    by simp
  have b3: "(rx_match (Seq (Star (Sat is_space)) (Seq (Dollar False) Eps)) (q, u) \<noteq> []) = ?B3 u"
    for q u
    by (rule seq_nonempty_lang [OF _ b4]) simp
  have b2: "(rx_match (Seq (rx_chr CHR ''}'') (Seq (Star (Sat is_space)) (Seq (Dollar False) Eps)))
      (q, u) \<noteq> []) = ?B2 u" for q u
    by (rule seq_nonempty_lang [OF _ b3]) simp
  have b1: "(rx_match rx_text_close (q, u) \<noteq> []) = ?B1 u" for q u
    unfolding r by (rule seq_nonempty_lang [OF _ b2]) simp
  have "re_search rx_text_close s = (\<exists>pre v. s = pre @ v \<and> ?B1 v)"
    unfolding re_search_iff b1 ..
  also have "\<dots> = (\<exists>pre w. s = pre @ CHR ''}'' # w \<and> (\<forall>c \<in> set w. is_space c))"
  proof (intro iffI; elim exE conjE)
    fix pre v m v2 x v3 w v4
    assume e: "s = pre @ v" "v = m @ v2" "v2 = x @ v3" "v3 = w @ v4"
      and m: "x \<in> lang (rx_chr CHR ''}'')" "w \<in> lang (Star (Sat is_space))"
      and d: "v4 = [] \<or> v4 = [CHR 0x0A]"
    from m(1) have x: "x = [CHR ''}'']" by (simp add: lang_chr)
    from e x have "s = (pre @ m) @ CHR ''}'' # (w @ v4)" by simp
    moreover have nl: "is_space (CHR 0x0A)" by (simp add: is_space_def)
    from m(2) d nl have "\<forall>c \<in> set (w @ v4). is_space c"
      unfolding lang_star_sat by auto
    ultimately have "s = (pre @ m) @ CHR ''}'' # (w @ v4) \<and> (\<forall>c \<in> set (w @ v4). is_space c)"
      by simp
    then show "\<exists>pre w. s = pre @ CHR ''}'' # w \<and> (\<forall>c \<in> set w. is_space c)"
      by (intro exI)
  next
    fix pre w
    assume e: "s = pre @ CHR ''}'' # w" and m: "\<forall>c \<in> set w. is_space c"
    from m have w: "w \<in> lang (Star (Sat is_space))" unfolding lang_star_sat by simp
    have "?B4 []" by simp
    with w have "w = w @ [] \<and> w \<in> lang (Star (Sat is_space)) \<and> ?B4 []" by simp
    then have b3: "?B3 w" by (intro exI)
    have "[CHR ''}''] \<in> lang (rx_chr CHR ''}'')" by (simp add: lang_chr)
    with b3 have "CHR ''}'' # w = [CHR ''}''] @ w \<and> [CHR ''}''] \<in> lang (rx_chr CHR ''}'') \<and> ?B3 w"
      by simp
    then have b2: "?B2 (CHR ''}'' # w)" by (intro exI)
    have "[] \<in> lang (Star (Sat is_dot))" by (simp add: star_lang.nil)
    with b2 have "CHR ''}'' # w = [] @ CHR ''}'' # w \<and> [] \<in> lang (Star (Sat is_dot)) \<and>
        ?B2 (CHR ''}'' # w)" by simp
    then have b1: "?B1 (CHR ''}'' # w)" by (intro exI)
    from e b1 have "s = pre @ CHR ''}'' # w \<and> ?B1 (CHR ''}'' # w)" by (rule conjI)
    then show "\<exists>pre v. s = pre @ v \<and> ?B1 v" by (intro exI)
  qed
  finally show ?thesis .
qed

lemma dollar_multiline: "(u = [] \<or> u = [CHR 0x0A] \<or> (True \<and> take 1 u = [CHR 0x0A])) =
    (u = [] \<or> hd u = CHR 0x0A)"
  by (cases u) auto

lemma prev_line_start:
  "((if pre = [] then None else Some (last pre)) = None \<or>
     True \<and> (if pre = [] then None else Some (last pre)) = Some (CHR 0x0A)) =
   (pre = [] \<or> last pre = CHR 0x0A)"
  by auto

theorem rx_xml_shape:
  "re_search rx_xml s =
     (\<exists>pre w m post. s = pre @ w @ CHR ''<'' # m @ CHR ''>'' # post \<and>
        (pre = [] \<or> last pre = CHR 0x0A) \<and> (\<forall>c \<in> set w. is_space c) \<and>
        (\<forall>c \<in> set m. c \<noteq> CHR 0x0A) \<and> (post = [] \<or> hd post = CHR 0x0A))"
proof -
  let ?B5 = "\<lambda>u. u = [] \<or> hd u = CHR 0x0A"
  let ?B4 = "\<lambda>u. \<exists>x v. u = x @ v \<and> x \<in> lang (rx_chr CHR ''>'') \<and> ?B5 v"
  let ?B3 = "\<lambda>u. \<exists>x v. u = x @ v \<and> x \<in> lang (Star (Sat is_dot)) \<and> ?B4 v"
  let ?B2 = "\<lambda>u. \<exists>x v. u = x @ v \<and> x \<in> lang (rx_chr CHR ''<'') \<and> ?B3 v"
  let ?B1 = "\<lambda>u. \<exists>x v. u = x @ v \<and> x \<in> lang (Star (Sat is_space)) \<and> ?B2 v"
  have r: "rx_xml = Seq (Caret True) (Seq (Star (Sat is_space)) (Seq (rx_chr CHR ''<'')
      (Seq (Star (Sat is_dot)) (Seq (rx_chr CHR ''>'') (Seq (Dollar True) Eps)))))"
    by (simp add: rx_xml_def rx_seqs_def)
  have b5: "(rx_match (Seq (Dollar True) Eps) (q, u) \<noteq> []) = ?B5 u" for q u
    unfolding dollar_eps_nonempty dollar_multiline ..
  have b4: "(rx_match (Seq (rx_chr CHR ''>'') (Seq (Dollar True) Eps)) (q, u) \<noteq> []) = ?B4 u" for q u
    by (rule seq_nonempty_lang [OF _ b5]) simp
  have b3: "(rx_match (Seq (Star (Sat is_dot)) (Seq (rx_chr CHR ''>'') (Seq (Dollar True) Eps)))
      (q, u) \<noteq> []) = ?B3 u" for q u
    by (rule seq_nonempty_lang [OF _ b4]) simp
  have b2: "(rx_match (Seq (rx_chr CHR ''<'') (Seq (Star (Sat is_dot)) (Seq (rx_chr CHR ''>'')
      (Seq (Dollar True) Eps)))) (q, u) \<noteq> []) = ?B2 u" for q u
    by (rule seq_nonempty_lang [OF _ b3]) simp
  have b1: "(rx_match (Seq (Star (Sat is_space)) (Seq (rx_chr CHR ''<'') (Seq (Star (Sat is_dot))
      (Seq (rx_chr CHR ''>'') (Seq (Dollar True) Eps))))) (q, u) \<noteq> []) = ?B1 u" for q u
    by (rule seq_nonempty_lang [OF _ b2]) simp
  have "re_search rx_xml s =
      (\<exists>pre v. s = pre @ v \<and> (pre = [] \<or> last pre = CHR 0x0A) \<and> ?B1 v)"
    unfolding r re_search_iff caret_seq_nonempty b1 prev_line_start ..
  also have "\<dots> = (\<exists>pre w m post. s = pre @ w @ CHR ''<'' # m @ CHR ''>'' # post \<and>
        (pre = [] \<or> last pre = CHR 0x0A) \<and> (\<forall>c \<in> set w. is_space c) \<and>
        (\<forall>c \<in> set m. c \<noteq> CHR 0x0A) \<and> (post = [] \<or> hd post = CHR 0x0A))"
  proof (intro iffI; elim exE conjE)
    fix pre v w v2 x v3 m v4 y post
    assume e: "s = pre @ v" "v = w @ v2" "v2 = x @ v3" "v3 = m @ v4" "v4 = y @ post"
      and l: "w \<in> lang (Star (Sat is_space))" "x \<in> lang (rx_chr CHR ''<'')"
        "m \<in> lang (Star (Sat is_dot))" "y \<in> lang (rx_chr CHR ''>'')"
      and a: "pre = [] \<or> last pre = CHR 0x0A" "post = [] \<or> hd post = CHR 0x0A"
    from l(2,4) have "x = [CHR ''<'']" "y = [CHR ''>'']" by (simp_all add: lang_chr)
    with e have "s = pre @ w @ CHR ''<'' # m @ CHR ''>'' # post" by simp
    moreover from l(1,3) have "(\<forall>c \<in> set w. is_space c) \<and> (\<forall>c \<in> set m. c \<noteq> CHR 0x0A)"
      unfolding lang_star_sat by (simp add: is_dot_def)
    ultimately have "s = pre @ w @ CHR ''<'' # m @ CHR ''>'' # post \<and>
        (pre = [] \<or> last pre = CHR 0x0A) \<and> (\<forall>c \<in> set w. is_space c) \<and>
        (\<forall>c \<in> set m. c \<noteq> CHR 0x0A) \<and> (post = [] \<or> hd post = CHR 0x0A)"
      using a by simp
    then show "\<exists>pre w m post. s = pre @ w @ CHR ''<'' # m @ CHR ''>'' # post \<and>
        (pre = [] \<or> last pre = CHR 0x0A) \<and> (\<forall>c \<in> set w. is_space c) \<and>
        (\<forall>c \<in> set m. c \<noteq> CHR 0x0A) \<and> (post = [] \<or> hd post = CHR 0x0A)"
      by (intro exI)
  next
    fix pre w m post
    assume e: "s = pre @ w @ CHR ''<'' # m @ CHR ''>'' # post"
      and a: "pre = [] \<or> last pre = CHR 0x0A" "post = [] \<or> hd post = CHR 0x0A"
      and l: "\<forall>c \<in> set w. is_space c" "\<forall>c \<in> set m. c \<noteq> CHR 0x0A"
    from l have l': "w \<in> lang (Star (Sat is_space))" "m \<in> lang (Star (Sat is_dot))"
      unfolding lang_star_sat by (simp_all add: is_dot_def)
    have gt: "[CHR ''>''] \<in> lang (rx_chr CHR ''>'')" and lt: "[CHR ''<''] \<in> lang (rx_chr CHR ''<'')"
      by (simp_all add: lang_chr)
    from a(2) gt have "CHR ''>'' # post = [CHR ''>''] @ post \<and> [CHR ''>''] \<in> lang (rx_chr CHR ''>'') \<and>
        ?B5 post" by simp
    then have b4: "?B4 (CHR ''>'' # post)" by (intro exI)
    from l'(2) b4 have "m @ CHR ''>'' # post = m @ CHR ''>'' # post \<and> m \<in> lang (Star (Sat is_dot)) \<and>
        ?B4 (CHR ''>'' # post)" by simp
    then have b3: "?B3 (m @ CHR ''>'' # post)" by (intro exI)
    from lt b3 have "CHR ''<'' # m @ CHR ''>'' # post = [CHR ''<''] @ m @ CHR ''>'' # post \<and>
        [CHR ''<''] \<in> lang (rx_chr CHR ''<'') \<and> ?B3 (m @ CHR ''>'' # post)" by simp
    then have b2: "?B2 (CHR ''<'' # m @ CHR ''>'' # post)" by (intro exI)
    from l'(1) b2 have "w @ CHR ''<'' # m @ CHR ''>'' # post = w @ CHR ''<'' # m @ CHR ''>'' # post \<and>
        w \<in> lang (Star (Sat is_space)) \<and> ?B2 (CHR ''<'' # m @ CHR ''>'' # post)" by simp
    then have b1: "?B1 (w @ CHR ''<'' # m @ CHR ''>'' # post)" by (intro exI)
    from e a(1) b1 have "s = pre @ w @ CHR ''<'' # m @ CHR ''>'' # post \<and>
        (pre = [] \<or> last pre = CHR 0x0A) \<and> ?B1 (w @ CHR ''<'' # m @ CHR ''>'' # post)"
      by (intro conjI)
    then show "\<exists>pre v. s = pre @ v \<and> (pre = [] \<or> last pre = CHR 0x0A) \<and> ?B1 v"
      by (intro exI)
  qed
  finally show ?thesis .
qed

section \<open>The format of a string is read from its shape\<close>

lemma overwrite_arg_format [simp]: "overwrite_arg (kv\<lparr>format := f\<rparr>) = overwrite_arg kv"
  by (simp add: overwrite_arg_def)

lemma init_xattrs_format_update [simp]: "init_xattrs (kv\<lparr>format := f\<rparr>) = init_xattrs kv"
  by (simp add: init_xattrs_def Let_def)

lemma load_explicit_direct:
  "load e (c0 # rest) (kv\<lparr>format := Some f\<rparr>) =
     (case lset_format (overwrite_arg kv) (kv\<lparr>format := Some f\<rparr>, init_xattrs kv) of
        Inl err \<Rightarrow> ([], Inl err)
      | Inr st \<Rightarrow> load_direct e (overwrite_arg kv) c0 st)"
  by (simp add: load_def load_source_def Let_def split: sum.split)

lemma load_detect_direct:
  assumes "format kv = None"
  shows "load e (Val (PStr s) # rest) kv =
     (if format (lset_from_rexp s kv) = None then ([], Inl (RuntimeError unresolved_msg))
      else case lset_format (overwrite_arg kv) (lset_from_rexp s kv, init_xattrs kv) of
             Inl err \<Rightarrow> ([], Inl err)
           | Inr st \<Rightarrow> load_direct e (overwrite_arg kv) (Val (PStr s)) st)"
proof (cases "format (lset_from_rexp s kv) = None")
  case True
  with assms show ?thesis by (simp add: load_def load_source_def load_direct_def Let_def)
next
  case False
  then obtain f where f: "format (lset_from_rexp s kv) = Some f" by blast
  show ?thesis
  proof (cases "lset_format (overwrite_arg kv) (lset_from_rexp s kv, init_xattrs kv)")
    case (Inl err)
    with assms f show ?thesis by (simp add: load_def load_source_def load_direct_def Let_def)
  next
    case (Inr st)
    obtain kv1 xa1 where st: "st = (kv1, xa1)" by (cases st)
    from Inr st lset_format_Inr [of "overwrite_arg kv" "lset_from_rexp s kv" "init_xattrs kv" kv1 xa1]
    obtain f1 where "format kv1 = Some f1" by auto
    with assms f Inr st show ?thesis
      by (simp add: load_def load_source_def load_direct_def Let_def)
  qed
qed

text \<open>
  C3. For a string given directly with no \<^verbatim>\<open>format\<close>, \<open>load\<close> applies the three shape
  tests in order: a line of the form \<^verbatim>\<open><...>\<close> makes it behave as with \<^verbatim>\<open>format='xml'\<close>;
  otherwise a leading \<^verbatim>\<open>set\<close>, \<^verbatim>\<open>delete\<close>, \<^verbatim>\<open>replace\<close> or \<^verbatim>\<open>rename\<close> followed by white space
  as with \<^verbatim>\<open>format='set'\<close>; otherwise a word followed by \<^verbatim>\<open>{\<close> in a text that ends with
  \<^verbatim>\<open>}\<close> as with \<^verbatim>\<open>format='text'\<close>. When none applies it raises \<open>RuntimeError\<close> telling
  the caller to define the format explicitly, and has issued no remote call.
\<close>

theorem load_string_shape_resolution:
  "format kv = None \<longrightarrow>
     load e (Val (PStr s) # rest) kv =
       (if re_search rx_xml s then load e (Val (PStr s) # rest) (kv\<lparr>format := Some ''xml''\<rparr>)
        else if re_search rx_set s then load e (Val (PStr s) # rest) (kv\<lparr>format := Some ''set''\<rparr>)
        else if re_search rx_text_open s \<and> re_search rx_text_close s
          then load e (Val (PStr s) # rest) (kv\<lparr>format := Some ''text''\<rparr>)
        else ([], Inl (RuntimeError unresolved_msg)))"
proof
  assume fn: "format kv = None"
  consider (x) "re_search rx_xml s"
    | (s) "\<not> re_search rx_xml s" "re_search rx_set s"
    | (t) "\<not> re_search rx_xml s" "\<not> re_search rx_set s"
          "re_search rx_text_open s \<and> re_search rx_text_close s"
    | (n) "\<not> re_search rx_xml s" "\<not> re_search rx_set s"
          "\<not> (re_search rx_text_open s \<and> re_search rx_text_close s)"
    by blast
  then show "load e (Val (PStr s) # rest) kv =
       (if re_search rx_xml s then load e (Val (PStr s) # rest) (kv\<lparr>format := Some ''xml''\<rparr>)
        else if re_search rx_set s then load e (Val (PStr s) # rest) (kv\<lparr>format := Some ''set''\<rparr>)
        else if re_search rx_text_open s \<and> re_search rx_text_close s
          then load e (Val (PStr s) # rest) (kv\<lparr>format := Some ''text''\<rparr>)
        else ([], Inl (RuntimeError unresolved_msg)))"
  proof cases
    case x
    then have "lset_from_rexp s kv = kv\<lparr>format := Some ''xml''\<rparr>" by (simp add: lset_from_rexp_def)
    with x show ?thesis by (simp add: load_detect_direct [OF fn] load_explicit_direct)
  next
    case s
    then have "lset_from_rexp s kv = kv\<lparr>format := Some ''set''\<rparr>" by (simp add: lset_from_rexp_def)
    with s show ?thesis by (simp add: load_detect_direct [OF fn] load_explicit_direct)
  next
    case t
    then have "lset_from_rexp s kv = kv\<lparr>format := Some ''text''\<rparr>" by (simp add: lset_from_rexp_def)
    with t show ?thesis by (simp add: load_detect_direct [OF fn] load_explicit_direct)
  next
    case n
    then have "lset_from_rexp s kv = kv" by (auto simp: lset_from_rexp_def)
    with n fn show ?thesis by (auto simp: load_detect_direct [OF fn])
  qed
qed

theorem load_string_shape_resolution_witness:
  "load (quiet_env ok_dev) [Val (PStr ''<a>b</a>'')] no_load_kvargs =
     load (quiet_env ok_dev) [Val (PStr ''<a>b</a>'')] (no_load_kvargs\<lparr>format := Some ''xml''\<rparr>) \<and>
   load (quiet_env ok_dev) [Val (PStr ''set system host-name foo'')] no_load_kvargs =
     load (quiet_env ok_dev) [Val (PStr ''set system host-name foo'')]
       (no_load_kvargs\<lparr>format := Some ''set''\<rparr>) \<and>
   load (quiet_env ok_dev) [Val (PStr curly_example)] no_load_kvargs =
     load (quiet_env ok_dev) [Val (PStr curly_example)] (no_load_kvargs\<lparr>format := Some ''text''\<rparr>) \<and>
   load (quiet_env ok_dev) [Val (PStr ''just a sentence'')] no_load_kvargs =
     ([], Inl (RuntimeError unresolved_msg))"
  using load_string_shape_resolution [of no_load_kvargs "quiet_env ok_dev" "''<a>b</a>''" "[]"]
    load_string_shape_resolution [of no_load_kvargs "quiet_env ok_dev" "''set system host-name foo''" "[]"]
    load_string_shape_resolution [of no_load_kvargs "quiet_env ok_dev" curly_example "[]"]
    load_string_shape_resolution [of no_load_kvargs "quiet_env ok_dev" "''just a sentence''" "[]"]
  by (simp add: shape_xml_example shape_set_example shape_text_example shape_none_example
        no_load_kvargs_def)

lemma load_spec_examples:
  "\<exists>xa. load (quiet_env ok_dev) [Val (PStr ''<a>b</a>'')] no_load_kvargs =
          ([load_config (Element (Elem ''configuration'' (Some ''<a>b</a>'') [])) xa],
           Inr (Element (Elem ''rpc-reply'' None []))) \<and>
        xa ''format'' = Some ''xml'' \<and> xa ''action'' = Some ''replace''"
  "\<exists>xa. load (quiet_env ok_dev) [Val (PStr ''set system host-name foo'')] no_load_kvargs =
          ([load_config (Val (PStr ''set system host-name foo'')) xa],
           Inr (Element (Elem ''rpc-reply'' None []))) \<and>
        xa ''format'' = Some ''text'' \<and> xa ''action'' = Some ''set''"
  "\<exists>xa. load (quiet_env ok_dev) [Val (PStr curly_example)] no_load_kvargs =
          ([load_config (Val (PStr curly_example)) xa],
           Inr (Element (Elem ''rpc-reply'' None []))) \<and>
        xa ''format'' = Some ''text'' \<and> xa ''action'' = Some ''replace''"
  by (simp_all add: load_detect_direct no_load_kvargs_def lset_from_rexp_def lset_format_def
        load_direct_def try_load_def init_xattrs_def overwrite_arg_def quiet_env_def ok_dev_def
        shape_xml_example shape_set_example shape_text_example)

section \<open>overwrite counts only when it equals True\<close>

lemma lset_format_cong_ov:
  assumes "py_eq (PBool True) v = py_eq (PBool True) v'"
  shows "lset_format v = lset_format v'"
  by (rule ext) (unfold lset_format_def assms, rule refl)

lemma lset_fromfile_cong_ov:
  assumes "py_eq (PBool True) v = py_eq (PBool True) v'"
  shows "lset_fromfile v = lset_fromfile v'"
  by (rule ext, rule ext) (unfold lset_fromfile_def lset_format_cong_ov [OF assms], rule refl)

lemma load_fromfile_cong_ov:
  assumes "py_eq (PBool True) v = py_eq (PBool True) v'"
  shows "load_fromfile e v = load_fromfile e v'"
  by (rule ext, rule ext, rule ext)
     (unfold load_fromfile_def lset_fromfile_cong_ov [OF assms], rule refl)

lemma load_direct_cong_ov:
  assumes "py_eq (PBool True) v = py_eq (PBool True) v'"
  shows "load_direct e v = load_direct e v'"
  by (rule ext, rule ext) (unfold load_direct_def lset_format_cong_ov [OF assms], rule refl)

lemma load_source_cong_ov:
  assumes "py_eq (PBool True) v = py_eq (PBool True) v'"
  shows "load_source e v = load_source e v'"
  by (rule ext, rule ext)
     (unfold load_source_def load_direct_cong_ov [OF assms] load_fromfile_cong_ov [OF assms],
      rule refl)

lemma lset_format_overwrite_upd:
  "lset_format ov (kv\<lparr>overwrite := a\<rparr>, xa) =
     (case lset_format ov (kv, xa) of Inl err \<Rightarrow> Inl err | Inr (k, x) \<Rightarrow> Inr (k\<lparr>overwrite := a\<rparr>, x))"
  by (cases "format kv") (simp_all add: lset_format_def)

lemma lset_from_rexp_overwrite_upd:
  "lset_from_rexp s (kv\<lparr>overwrite := a\<rparr>) = (lset_from_rexp s kv)\<lparr>overwrite := a\<rparr>"
  by (simp add: lset_from_rexp_def)

lemma load_fromfile_overwrite_upd:
  "load_fromfile e ov p tx (kv\<lparr>overwrite := a\<rparr>, xa) = load_fromfile e ov p tx (kv, xa)"
proof (cases "format kv")
  case (Some f)
  then show ?thesis by (simp add: load_fromfile_def lset_fromfile_def)
next
  case None
  show ?thesis
  proof (cases "lformat_byext p")
    case (Inl err)
    with None show ?thesis by (simp add: load_fromfile_def lset_fromfile_def)
  next
    case (Inr f)
    have "lset_format ov (kv\<lparr>overwrite := a, format := Some f\<rparr>, xa) =
          lset_format ov (kv\<lparr>format := Some f\<rparr>\<lparr>overwrite := a\<rparr>, xa)" by (cases kv) simp
    with None Inr show ?thesis
      by (cases "lset_format ov (kv\<lparr>format := Some f\<rparr>, xa)")
         (auto simp: load_fromfile_def lset_fromfile_def lset_format_overwrite_upd
               simp del: load_kvargs.update_convs)
  qed
qed

lemma load_direct_overwrite_upd:
  "load_direct e ov c0 (kv\<lparr>overwrite := a\<rparr>, xa) = load_direct e ov c0 (kv, xa)"
proof (cases "\<exists>s. c0 = Val (PStr s)")
  case False
  then show ?thesis by (cases c0) (simp_all add: load_direct_def split: pyval.split)
next
  case True
  then obtain s where s: "c0 = Val (PStr s)" by blast
  show ?thesis
  proof (cases "format kv")
    case (Some f)
    with s show ?thesis by (simp add: load_direct_def)
  next
    case None
    show ?thesis
    proof (cases "format (lset_from_rexp s kv)")
      case None
      with \<open>format kv = None\<close> s show ?thesis
        by (simp add: load_direct_def Let_def lset_from_rexp_overwrite_upd)
    next
      case (Some f)
      with \<open>format kv = None\<close> s show ?thesis
        by (cases "lset_format ov (lset_from_rexp s kv, xa)")
           (auto simp: load_direct_def Let_def lset_from_rexp_overwrite_upd
                 lset_format_overwrite_upd)
    qed
  qed
qed

lemma load_source_overwrite_upd:
  "load_source e ov vargs (kv\<lparr>overwrite := a\<rparr>, xa) = load_source e ov vargs (kv, xa)"
  by (simp add: load_source_def load_direct_overwrite_upd load_fromfile_overwrite_upd
        render_vars_def split: list.split option.split sum.split)

lemma load_drop_overwrite_field:
  "load e vargs (kv\<lparr>overwrite := a\<rparr>) =
     (case (if format kv \<noteq> None
            then lset_format (overwrite_arg (kv\<lparr>overwrite := a\<rparr>))
                   (kv, init_xattrs (kv\<lparr>overwrite := a\<rparr>))
            else Inr (kv, init_xattrs (kv\<lparr>overwrite := a\<rparr>))) of
        Inl err \<Rightarrow> ([], Inl err)
      | Inr st \<Rightarrow> load_source e (overwrite_arg (kv\<lparr>overwrite := a\<rparr>)) vargs st)"
proof (cases "format kv")
  case None
  then show ?thesis by (simp add: load_def Let_def load_source_overwrite_upd)
next
  case (Some f)
  then show ?thesis
    by (cases "lset_format (overwrite_arg (kv\<lparr>overwrite := a\<rparr>))
                 (kv, init_xattrs (kv\<lparr>overwrite := a\<rparr>))")
       (auto simp: load_def Let_def lset_format_overwrite_upd load_source_overwrite_upd)
qed

lemma load_overwrite_not_True:
  assumes "\<not> py_eq (PBool True) v"
  shows "load e vargs (kv\<lparr>overwrite := Some v\<rparr>) = load e vargs (kv\<lparr>overwrite := None\<rparr>)"
proof -
  have ov: "py_eq (PBool True) v = py_eq (PBool True) (PBool False)" using assms by simp
  have x: "init_xattrs (kv\<lparr>overwrite := Some v\<rparr>) = init_xattrs (kv\<lparr>overwrite := None\<rparr>)"
    using assms by (simp add: init_xattrs_def overwrite_arg_def Let_def)
  have a: "overwrite_arg (kv\<lparr>overwrite := Some v\<rparr>) = v"
    and b: "overwrite_arg (kv\<lparr>overwrite := None\<rparr>) = PBool False"
    by (simp_all add: overwrite_arg_def)
  show ?thesis
    unfolding load_drop_overwrite_field a b x
      lset_format_cong_ov [OF ov] load_source_cong_ov [OF ov] ..
qed

lemma lset_format_ok:
  assumes "format kv = Some f" and "\<not> (f = ''set'' \<and> py_eq (PBool True) ov)"
  shows "\<exists>kv' xa'. lset_format ov (kv, xa) = Inr (kv', xa') \<and>
           format kv' = Some (if f = ''set'' then ''text'' else f)"
proof (cases "f = ''set''")
  case True
  with assms show ?thesis by (simp add: lset_format_def)
next
  case False
  with assms show ?thesis by (simp add: lset_format_def)
qed

lemma load_direct_sends:
  assumes "format kv = Some f" and "f \<noteq> ''xml''"
  shows "fst (load_direct e ov c0 (kv, xa)) = [load_config c0 xa]"
proof (cases "\<exists>s. c0 = Val (PStr s)")
  case False
  then show ?thesis by (cases c0) (simp_all add: load_direct_def try_load_fst split: pyval.split)
next
  case True
  then obtain s where "c0 = Val (PStr s)" by blast
  with assms show ?thesis by (simp add: load_direct_def try_load_fst)
qed

lemma load_direct_content_sends:
  assumes rf: "resolved_format e (c0 # rest) kv = Some f"
    and nx: "f \<noteq> ''xml''"
    and nc: "\<not> (f = ''set'' \<and> py_eq (PBool True) (overwrite_arg kv))"
  shows "\<exists>xa. fst (load e (c0 # rest) kv) = [load_config c0 xa]"
proof -
  have w: "(if f = ''set'' then ''text'' else f) \<noteq> ''xml''" using nx by simp
  show ?thesis
  proof (cases "format kv")
    case (Some f0)
    with rf have "f0 = f" by (simp add: resolved_format_def)
    with Some lset_format_ok [OF _ nc, of kv "init_xattrs kv"] obtain kv' xa' where
      l: "lset_format (overwrite_arg kv) (kv, init_xattrs kv) = Inr (kv', xa')"
      and f': "format kv' = Some (if f = ''set'' then ''text'' else f)" by auto
    from Some l have "load e (c0 # rest) kv = load_direct e (overwrite_arg kv) c0 (kv', xa')"
      by (simp add: load_def load_source_def Let_def)
    with load_direct_sends [OF f' w] show ?thesis by auto
  next
    case None
    show ?thesis
    proof (cases "\<exists>s. c0 = Val (PStr s)")
      case False
      then have "resolved_format e (c0 # rest) kv = Some ''xml''"
        using None by (cases c0) (simp_all add: resolved_format_def split: pyval.split)
      with rf nx show ?thesis by simp
    next
      case True
      then obtain s where s: "c0 = Val (PStr s)" by blast
      with rf None have fr: "format (lset_from_rexp s kv) = Some f" by (simp add: resolved_format_def)
      from lset_format_ok [OF fr nc, of "init_xattrs kv"] obtain kv' xa' where
        l: "lset_format (overwrite_arg kv) (lset_from_rexp s kv, init_xattrs kv) = Inr (kv', xa')"
        and f': "format kv' = Some (if f = ''set'' then ''text'' else f)" by auto
      from None s fr l have "load e (c0 # rest) kv = load_direct e (overwrite_arg kv) c0 (kv', xa')"
        by (simp add: load_detect_direct)
      with load_direct_sends [OF f' w] show ?thesis by auto
    qed
  qed
qed

text \<open>
  C10. A value of \<^verbatim>\<open>overwrite\<close> that does not compare equal to \<^verbatim>\<open>True\<close> (such as the
  string \<^verbatim>\<open>'true'\<close>) leaves \<open>load\<close> exactly as it is with \<^verbatim>\<open>overwrite\<close> absent: the action
  set up from the flags stays \<^verbatim>\<open>replace\<close> (or is dropped by \<^verbatim>\<open>merge\<close>), and content whose
  resolved format is \<^verbatim>\<open>set\<close> is sent with action \<^verbatim>\<open>set\<close> rather than refused.
\<close>

theorem overwrite_only_when_equal_True:
  "\<not> py_eq (PBool True) v \<longrightarrow>
     load e vargs (kv\<lparr>overwrite := Some v\<rparr>) = load e vargs (kv\<lparr>overwrite := None\<rparr>)
     \<and> init_xattrs (kv\<lparr>overwrite := Some v\<rparr>) ''action'' =
         (if merge kv = Some (PBool True) then None else Some ''replace'')
     \<and> (resolved_format e (c0 # rest) (kv\<lparr>overwrite := Some v\<rparr>) = Some ''set'' \<longrightarrow>
          (\<exists>xa. fst (load e (c0 # rest) (kv\<lparr>overwrite := Some v\<rparr>)) = [load_config c0 xa]
                \<and> xa ''action'' = Some ''set'' \<and> xa ''format'' = Some ''text''))"
proof
  assume nv: "\<not> py_eq (PBool True) v"
  let ?kv = "kv\<lparr>overwrite := Some v\<rparr>"
  have ov: "overwrite_arg ?kv = v" by (simp add: overwrite_arg_def)
  have a: "init_xattrs ?kv ''action'' = (if merge kv = Some (PBool True) then None else Some ''replace'')"
    using nv by (simp add: init_xattrs_action ov)
  have b: "\<exists>xa. fst (load e (c0 # rest) ?kv) = [load_config c0 xa]
                \<and> xa ''action'' = Some ''set'' \<and> xa ''format'' = Some ''text''"
    if rf: "resolved_format e (c0 # rest) ?kv = Some ''set''"
  proof -
    from load_direct_content_sends [OF rf] nv ov obtain xa where
      x: "fst (load e (c0 # rest) ?kv) = [load_config c0 xa]" by auto
    then have "load_config c0 xa \<in> set (fst (load e (c0 # rest) ?kv))" by simp
    from load_call_marker [OF this] rf have "xa ''action'' = Some ''set'' \<and> xa ''format'' = Some ''text''"
      by simp
    with x show ?thesis by blast
  qed
  from load_overwrite_not_True [OF nv] a b
  show "load e vargs ?kv = load e vargs (kv\<lparr>overwrite := None\<rparr>)
     \<and> init_xattrs ?kv ''action'' =
         (if merge kv = Some (PBool True) then None else Some ''replace'')
     \<and> (resolved_format e (c0 # rest) ?kv = Some ''set'' \<longrightarrow>
          (\<exists>xa. fst (load e (c0 # rest) ?kv) = [load_config c0 xa]
                \<and> xa ''action'' = Some ''set'' \<and> xa ''format'' = Some ''text''))"
    by blast
qed

theorem overwrite_only_when_equal_True_witness:
  "\<not> py_eq (PBool True) (PStr ''true'') \<and>
   load (quiet_env ok_dev) [Val (PStr ''set system host-name foo'')]
       (no_load_kvargs\<lparr>overwrite := Some (PStr ''true'')\<rparr>) =
     load (quiet_env ok_dev) [Val (PStr ''set system host-name foo'')]
       (no_load_kvargs\<lparr>overwrite := None\<rparr>) \<and>
   init_xattrs (no_load_kvargs\<lparr>overwrite := Some (PStr ''true'')\<rparr>) ''action'' = Some ''replace'' \<and>
   resolved_format (quiet_env ok_dev) [Val (PStr ''set system host-name foo'')]
       (no_load_kvargs\<lparr>overwrite := Some (PStr ''true'')\<rparr>) = Some ''set'' \<and>
   (\<exists>xa. fst (load (quiet_env ok_dev) [Val (PStr ''set system host-name foo'')]
                (no_load_kvargs\<lparr>overwrite := Some (PStr ''true'')\<rparr>)) =
           [load_config (Val (PStr ''set system host-name foo'')) xa] \<and>
         xa ''action'' = Some ''set'' \<and> xa ''format'' = Some ''text'')"
proof -
  have n: "\<not> py_eq (PBool True) (PStr ''true'')" by simp
  have m: "merge no_load_kvargs \<noteq> Some (PBool True)" by (simp add: no_load_kvargs_def)
  note r = resolved_format_examples(2)
  note t = overwrite_only_when_equal_True [of "PStr ''true''" "quiet_env ok_dev"
          "[Val (PStr ''set system host-name foo'')]" no_load_kvargs
          "Val (PStr ''set system host-name foo'')" "[]", THEN mp, OF n]
  from t m have "init_xattrs (no_load_kvargs\<lparr>overwrite := Some (PStr ''true'')\<rparr>) ''action''
      = Some ''replace''" by simp
  with t n r show ?thesis by blast
qed

section \<open>Every source of content ends in the request the rule gives\<close>

text \<open>
  What \<open>load\<close> does once a format is resolved and the content is at hand, source by
  source: the helper that sets the format, the branch for direct content, the tail shared
  by the loads from a path or a template, and \<open>load\<close> itself.
\<close>

lemma lset_format_exact:
  assumes "format kv = Some f" and "\<not> (f = ''set'' \<and> py_eq (PBool True) ov)"
  shows "lset_format ov (kv, xa) =
     Inr (kv\<lparr>format := Some (if f = ''set'' then ''text'' else f)\<rparr>,
          if f = ''set'' then xa(''action'' \<mapsto> ''set'', ''format'' \<mapsto> ''text'')
          else xa(''format'' \<mapsto> f))"
proof (cases "f = ''set''")
  case True
  with assms show ?thesis by (simp add: lset_format_def)
next
  case False
  from assms(1) have "kv\<lparr>format := Some f\<rparr> = kv" by (cases kv) simp
  with assms False show ?thesis by (simp add: lset_format_def)
qed

lemma load_direct_exact:
  assumes "format kv = Some g"
  shows "load_direct e ov c0 (kv, xa) =
     (case sent_content e g c0 of Inl err \<Rightarrow> ([], Inl err) | Inr c \<Rightarrow> try_load e c xa)"
proof (cases "\<exists>s. c0 = Val (PStr s)")
  case False
  then show ?thesis
    by (cases c0) (simp_all add: load_direct_def sent_content_def split: pyval.split)
next
  case True
  then obtain s where s: "c0 = Val (PStr s)" by blast
  show ?thesis
  proof (cases "g = ''xml''")
    case True
    with assms s show ?thesis
      by (cases "etree_XML e s") (simp_all add: load_direct_def sent_content_def)
  next
    case False
    with assms s show ?thesis by (simp add: load_direct_def sent_content_def)
  qed
qed

lemma load_fromfile_explicit_exact:
  assumes "format kv = Some g" and "xa ''format'' = Some g"
  shows "load_fromfile e ov p tx (kv, xa) =
     (case sent_content e g (Val (PStr tx)) of Inl err \<Rightarrow> ([], Inl err) | Inr c \<Rightarrow> try_load e c xa)"
proof (cases "g = ''xml''")
  case True
  with assms show ?thesis
    by (cases "etree_XML e tx") (simp_all add: load_fromfile_def lset_fromfile_def sent_content_def)
next
  case False
  with assms show ?thesis by (simp add: load_fromfile_def lset_fromfile_def sent_content_def)
qed

lemma sent_content_wire:
  "sent_content e (if f = ''set'' then ''text'' else f) c0 = sent_content e f c0"
  by (cases "f = ''set''") (simp_all add: sent_content_def split: pyobj.split pyval.split)

lemma load_fromfile_ext_exact:
  assumes "format kv = None" and "lformat_byext p = Inr f"
    and "\<not> (f = ''set'' \<and> py_eq (PBool True) ov)"
  shows "load_fromfile e ov p tx (kv, xa) =
     (case sent_content e f (Val (PStr tx)) of
        Inl err \<Rightarrow> ([], Inl err)
      | Inr c \<Rightarrow> try_load e c (if f = ''set'' then xa(''action'' \<mapsto> ''set'', ''format'' \<mapsto> ''text'')
                               else xa(''format'' \<mapsto> f)))"
proof -
  have l: "lset_fromfile ov p (kv, xa) =
     Inr (kv\<lparr>format := Some f\<rparr>\<lparr>format := Some (if f = ''set'' then ''text'' else f)\<rparr>,
          if f = ''set'' then xa(''action'' \<mapsto> ''set'', ''format'' \<mapsto> ''text'')
          else xa(''format'' \<mapsto> f))"
    using assms lset_format_exact [of "kv\<lparr>format := Some f\<rparr>" f ov xa]
    by (simp add: lset_fromfile_def)
  show ?thesis
  proof (cases "f = ''set''")
    case True
    then show ?thesis unfolding load_fromfile_def l by (simp add: sent_content_def)
  next
    case False
    note ns = False
    show ?thesis
    proof (cases "f = ''xml''")
      case True
      with ns show ?thesis unfolding load_fromfile_def l
        by (cases "etree_XML e tx") (simp_all add: sent_content_def)
    next
      case False
      with ns show ?thesis unfolding load_fromfile_def l by (simp add: sent_content_def)
    qed
  qed
qed

lemma load_source_exact:
  assumes g: "format kv = Some g" and x: "xa ''format'' = Some g"
    and c: "load_content e vargs kv = Some c0"
  shows "load_source e ov vargs (kv, xa) =
     (case sent_content e g c0 of Inl err \<Rightarrow> ([], Inl err) | Inr c \<Rightarrow> try_load e c xa)"
proof (cases vargs)
  case (Cons c1 rest)
  with c have "c1 = c0" by (simp add: load_content_def)
  with Cons load_direct_exact [OF g, of e ov c0 xa] show ?thesis by (simp add: load_source_def)
next
  case Nil
  note vn = Nil
  show ?thesis
  proof (cases "path kv")
    case (Some p)
    show ?thesis
    proof (cases "read_file e p")
      case (Inl err)
      with c vn Some show ?thesis by (simp add: load_content_def)
    next
      case (Inr tx)
      with c vn Some have "c0 = Val (PStr tx)" by (simp add: load_content_def)
      with vn Some Inr load_fromfile_explicit_exact [where kv = kv and xa = xa and g = g and e = e and ov = ov
              and p = p and tx = tx, OF g x] show ?thesis
        by (simp add: load_source_def)
    qed
  next
    case None
    note pn = None
    show ?thesis
    proof (cases "template_path kv")
      case (Some p)
      show ?thesis
      proof (cases "dev_Template e p")
        case (Inl err)
        with c vn pn Some show ?thesis by (simp add: load_content_def)
      next
        case (Inr t)
        note tr = Inr
        show ?thesis
        proof (cases "render t (render_vars kv)")
          case (Inl err)
          with c vn pn Some tr show ?thesis by (simp add: load_content_def)
        next
          case (Inr tx)
          with c vn pn Some tr have "c0 = Val (PStr tx)" by (simp add: load_content_def)
          with vn pn Some tr Inr load_fromfile_explicit_exact [where kv = kv and xa = xa and g = g and e = e and ov = ov
              and p = p and tx = tx, OF g x] show ?thesis
            by (simp add: load_source_def)
        qed
      qed
    next
      case None
      note tpn = None
      show ?thesis
      proof (cases "template kv")
        case None
        with c vn pn tpn show ?thesis by (simp add: load_content_def)
      next
        case (Some t)
        show ?thesis
        proof (cases "render t (render_vars kv)")
          case (Inl err)
          with c vn pn tpn Some show ?thesis by (simp add: load_content_def)
        next
          case (Inr tx)
          with c vn pn tpn Some have "c0 = Val (PStr tx)" by (simp add: load_content_def)
          with vn pn tpn Some Inr load_fromfile_explicit_exact [where kv = kv and xa = xa and g = g and e = e and ov = ov
              and p = "filename t" and tx = tx, OF g x]
          show ?thesis by (simp add: load_source_def)
        qed
      qed
    qed
  qed
qed

lemma load_source_ext_exact:
  assumes fn: "format kv = None" and rf: "resolved_format e [] kv = Some f"
    and c: "load_content e [] kv = Some c0"
    and nc: "\<not> (f = ''set'' \<and> py_eq (PBool True) ov)"
  shows "load_source e ov [] (kv, xa) =
     (case sent_content e f c0 of
        Inl err \<Rightarrow> ([], Inl err)
      | Inr c \<Rightarrow> try_load e c (if f = ''set'' then xa(''action'' \<mapsto> ''set'', ''format'' \<mapsto> ''text'')
                               else xa(''format'' \<mapsto> f)))"
proof (cases "path kv")
  case (Some p)
  show ?thesis
  proof (cases "read_file e p")
    case (Inl err)
    with c Some show ?thesis by (simp add: load_content_def)
  next
    case (Inr tx)
    with c Some have c0: "c0 = Val (PStr tx)" by (simp add: load_content_def)
    from rf fn Some Inr have "lformat_byext p = Inr f"
      by (cases "lformat_byext p") (simp_all add: resolved_format_def)
    from load_fromfile_ext_exact [OF fn this nc, of e tx xa] Some Inr c0 show ?thesis
      by (simp add: load_source_def)
  qed
next
  case None
  note pn = None
  show ?thesis
  proof (cases "template_path kv")
    case (Some p)
    show ?thesis
    proof (cases "dev_Template e p")
      case (Inl err)
      with c pn Some show ?thesis by (simp add: load_content_def)
    next
      case (Inr t)
      note tr = Inr
      show ?thesis
      proof (cases "render t (render_vars kv)")
        case (Inl err)
        with c pn Some tr show ?thesis by (simp add: load_content_def)
      next
        case (Inr tx)
        with c pn Some tr have c0: "c0 = Val (PStr tx)" by (simp add: load_content_def)
        from rf fn pn Some tr Inr have "lformat_byext p = Inr f"
          by (cases "lformat_byext p") (simp_all add: resolved_format_def)
        from load_fromfile_ext_exact [OF fn this nc, of e tx xa] pn Some tr Inr c0 show ?thesis
          by (simp add: load_source_def)
      qed
    qed
  next
    case None
    note tpn = None
    show ?thesis
    proof (cases "template kv")
      case None
      with c pn tpn show ?thesis by (simp add: load_content_def)
    next
      case (Some t)
      show ?thesis
      proof (cases "render t (render_vars kv)")
        case (Inl err)
        with c pn tpn Some show ?thesis by (simp add: load_content_def)
      next
        case (Inr tx)
        with c pn tpn Some have c0: "c0 = Val (PStr tx)" by (simp add: load_content_def)
        from rf fn pn tpn Some Inr have "lformat_byext (filename t) = Inr f"
          by (cases "lformat_byext (filename t)") (simp_all add: resolved_format_def)
        from load_fromfile_ext_exact [OF fn this nc, of e tx xa] pn tpn Some Inr c0 show ?thesis
          by (simp add: load_source_def)
      qed
    qed
  qed
qed

lemma load_content_format_upd: "load_content e vargs (kv\<lparr>format := x\<rparr>) = load_content e vargs kv"
  by (simp add: load_content_def render_vars_def split: list.split option.split sum.split)

lemma marker_after_lset_format:
  "(if f = ''set'' then (init_xattrs kv)(''action'' \<mapsto> ''set'', ''format'' \<mapsto> ''text'')
    else (init_xattrs kv)(''format'' \<mapsto> f)) ''action'' =
     (if f = ''set'' then Some ''set''
      else if py_eq (PBool True) (overwrite_arg kv) then Some ''override''
      else if merge kv = Some (PBool True) then None
      else Some ''replace'')"
  "(if f = ''set'' then (init_xattrs kv)(''action'' \<mapsto> ''set'', ''format'' \<mapsto> ''text'')
    else (init_xattrs kv)(''format'' \<mapsto> f)) ''format'' = Some (if f = ''set'' then ''text'' else f)"
  by (cases "f = ''set''"; simp add: init_xattrs_action)+

lemma lset_xattrs_marker:
  assumes "\<not> (f = ''set'' \<and> py_eq (PBool True) (overwrite_arg kv))"
  shows "(if f = ''set'' then (init_xattrs kv)(''action'' \<mapsto> ''set'', ''format'' \<mapsto> ''text'')
          else (init_xattrs kv)(''format'' \<mapsto> f)) = marker_xattrs f kv"
proof (cases "f = ''set''")
  case True
  with assms have "\<not> py_eq (PBool True) (overwrite_arg kv)" by simp
  with True show ?thesis
    by (intro ext) (simp add: marker_xattrs_def init_xattrs_def Let_def)
next
  case False
  then show ?thesis
    by (intro ext) (simp add: marker_xattrs_def init_xattrs_def Let_def)
qed

lemma init_xattrs_marker: "f = ''xml'' \<Longrightarrow> init_xattrs kv = marker_xattrs f kv"
  by (intro ext) (simp add: marker_xattrs_def init_xattrs_def Let_def)

lemma load_builds_request:
  assumes rf: "resolved_format e vargs kv = Some f"
    and lc: "load_content e vargs kv = Some c0"
    and nc: "\<not> (f = ''set'' \<and> py_eq (PBool True) (overwrite_arg kv))"
  shows "load e vargs kv =
          (case sent_content e f c0 of
             Inl err \<Rightarrow> ([], Inl err)
           | Inr c \<Rightarrow> try_load e c (marker_xattrs f kv))"
proof -
  let ?ov = "overwrite_arg kv"
  let ?X = "init_xattrs kv"
  let ?g = "if f = ''set'' then ''text'' else f"
  let ?XA = "if f = ''set'' then ?X(''action'' \<mapsto> ''set'', ''format'' \<mapsto> ''text'')
             else ?X(''format'' \<mapsto> f)"
  let ?R = "\<lambda>xa. case sent_content e f c0 of Inl err \<Rightarrow> ([], Inl err) | Inr c \<Rightarrow> try_load e c xa"
  have xg: "?XA ''format'' = Some ?g" by (rule marker_after_lset_format(2))
  have "load e vargs kv = ?R ?XA \<or> (f = ''xml'' \<and> load e vargs kv = ?R ?X)"
  proof (cases "format kv")
    case (Some f0)
    with rf have f0: "f0 = f" by (simp add: resolved_format_def)
    from lset_format_exact [OF Some [unfolded f0] nc, of ?X]
    have l: "lset_format ?ov (kv, ?X) = Inr (kv\<lparr>format := Some ?g\<rparr>, ?XA)" .
    have "load e vargs kv = load_source e ?ov vargs (kv\<lparr>format := Some ?g\<rparr>, ?XA)"
      using Some l by (simp add: load_def Let_def)
    also have "\<dots> = (case sent_content e ?g c0 of Inl err \<Rightarrow> ([], Inl err)
                      | Inr c \<Rightarrow> try_load e c ?XA)"
      by (rule load_source_exact [where g = "?g" and xa = "?XA"
              and kv = "kv\<lparr>format := Some ?g\<rparr>" and e = e and vargs = vargs and ov = "?ov"])
         (simp_all add: load_content_format_upd lc marker_after_lset_format(2))
    finally have "load e vargs kv = ?R ?XA" by (simp only: sent_content_wire)
    then show ?thesis by (rule disjI1)
  next
    case None
    then have ld: "load e vargs kv = load_source e ?ov vargs (kv, ?X)" by (simp add: load_def Let_def)
    show ?thesis
    proof (cases vargs)
      case Nil
      from load_source_ext_exact [OF None rf [unfolded Nil] lc [unfolded Nil] nc, of ?X] ld Nil
      show ?thesis by simp
    next
      case (Cons c1 rest)
      with lc have c1: "c1 = c0" by (simp add: load_content_def)
      show ?thesis
      proof (cases "\<exists>s. c0 = Val (PStr s)")
        case False
        with rf None Cons c1 have fx: "f = ''xml''"
          by (cases c0) (simp_all add: resolved_format_def split: pyval.split_asm)
        from False have "load_direct e ?ov c0 (kv, ?X) = try_load e c0 ?X"
          by (cases c0) (simp_all add: load_direct_def split: pyval.split)
        moreover from False have "sent_content e f c0 = Inr c0"
          by (cases c0) (simp_all add: sent_content_def split: pyval.split)
        ultimately show ?thesis using ld Cons c1 fx by (simp add: load_source_def)
      next
        case True
        then obtain s where s: "c0 = Val (PStr s)" by blast
        with rf None Cons c1 have fr: "format (lset_from_rexp s kv) = Some f"
          by (simp add: resolved_format_def)
        note k = lset_from_rexp_format [OF None fr]
        from lset_format_exact [of "kv\<lparr>format := Some f\<rparr>" f ?ov ?X] nc
        have l: "lset_format ?ov (kv\<lparr>format := Some f\<rparr>, ?X) =
            Inr (kv\<lparr>format := Some f\<rparr>\<lparr>format := Some ?g\<rparr>, ?XA)" by simp
        have "load e vargs kv = load_direct e ?ov c0 (kv\<lparr>format := Some f\<rparr>\<lparr>format := Some ?g\<rparr>, ?XA)"
          unfolding Cons c1 s load_detect_direct [OF None] k l using fr by simp
        also have "\<dots> = (case sent_content e ?g c0 of Inl err \<Rightarrow> ([], Inl err)
                      | Inr c \<Rightarrow> try_load e c ?XA)"
          by (rule load_direct_exact) simp
        finally have "load e vargs kv = ?R ?XA" by (simp only: sent_content_wire)
    then show ?thesis by (rule disjI1)
      qed
    qed
  qed
  then show ?thesis
  proof
    assume a: "load e vargs kv = ?R ?XA"
    show ?thesis unfolding a lset_xattrs_marker [OF nc] by (rule refl)
  next
    assume "f = ''xml'' \<and> load e vargs kv = ?R ?X"
    then have fx: "f = ''xml''" and a: "load e vargs kv = ?R ?X" by simp_all
    show ?thesis unfolding a init_xattrs_marker [OF fx, of kv] by (rule refl)
  qed
qed

lemma load_source_no_content:
  "load_content e vargs kv = None \<Longrightarrow> fst (load_source e ov vargs (kv, xa)) = []"
  by (simp add: load_source_def load_content_def split: list.splits option.splits sum.splits)

lemma load_no_content:
  assumes "load_content e vargs kv = None"
  shows "fst (load e vargs kv) = []"
proof (cases "format kv")
  case None
  with assms show ?thesis by (simp add: load_def Let_def load_source_no_content)
next
  case (Some f0)
  show ?thesis
  proof (cases "f0 = ''set'' \<and> py_eq (PBool True) (overwrite_arg kv)")
    case True
    with Some show ?thesis by (simp add: load_def Let_def lset_format_conflict)
  next
    case False
    from lset_format_exact [OF Some False, of "init_xattrs kv"] Some assms show ?thesis
      by (simp add: load_def Let_def load_source_no_content load_content_format_upd)
  qed
qed

lemma load_conflict_silent:
  assumes "py_eq (PBool True) (overwrite_arg kv)" and "resolved_format e vargs kv = Some ''set''"
  shows "fst (load e vargs kv) = []"
proof (cases "format kv")
  case (Some f0)
  with assms have "f0 = ''set''" by (simp add: resolved_format_def)
  with assms Some show ?thesis by (simp add: load_def lset_format_conflict)
next
  case None
  with assms load_source_conflict [of "overwrite_arg kv" kv e vargs "init_xattrs kv"]
  show ?thesis by (simp add: load_def)
qed

lemma load_call_exact:
  assumes m: "load_config c xa \<in> set (fst (load e vargs kv))"
  shows "\<exists>f c0. resolved_format e vargs kv = Some f \<and> load_content e vargs kv = Some c0 \<and>
           sent_content e f c0 = Inr c \<and> xa = marker_xattrs f kv"
proof -
  from load_call_marker [OF m] obtain f where rf: "resolved_format e vargs kv = Some f" by blast
  have nc: "\<not> (f = ''set'' \<and> py_eq (PBool True) (overwrite_arg kv))"
  proof
    assume "f = ''set'' \<and> py_eq (PBool True) (overwrite_arg kv)"
    with rf load_conflict_silent [of kv e vargs] have "fst (load e vargs kv) = []" by simp
    with m show False by simp
  qed
  from m load_no_content [of e vargs kv] obtain c0 where lc: "load_content e vargs kv = Some c0"
    by (cases "load_content e vargs kv") auto
  note l = load_builds_request [OF rf lc nc]
  show ?thesis
  proof (cases "sent_content e f c0")
    case (Inl err)
    with l m show ?thesis by simp
  next
    case (Inr c')
    with l m have "c = c' \<and> xa = marker_xattrs f kv" by (simp add: try_load_fst)
    with rf lc Inr show ?thesis by blast
  qed
qed

lemma sent_content_plain: "f \<noteq> ''xml'' \<Longrightarrow> sent_content e f c = Inr c"
  by (simp add: sent_content_def split: pyobj.split pyval.split)

lemma sent_content_parsed:
  "sent_content (quiet_env ok_dev) ''xml'' (Val (PStr s)) = Inr (Element (Elem ''configuration'' (Some s) []))"
  by (simp add: sent_content_def quiet_env_def)

lemma lformat_byext_conf: "lformat_byext ''interfaces.conf'' = Inr ''text''"
  by code_simp

lemma source_examples:
  "resolved_format (quiet_env ok_dev) [] (no_load_kvargs\<lparr>path := Some ''base.set''\<rparr>) = Some ''set''"
  "load_content (quiet_env ok_dev) [] (no_load_kvargs\<lparr>path := Some ''base.set''\<rparr>)
     = Some (Val (PStr ''set system host-name foo''))"
  "resolved_format (quiet_env ok_dev) []
     (no_load_kvargs\<lparr>merge := Some (PBool True), template := Some conf_template\<rparr>) = Some ''text''"
  "load_content (quiet_env ok_dev) []
     (no_load_kvargs\<lparr>merge := Some (PBool True), template := Some conf_template\<rparr>)
     = Some (Val (PStr curly_example))"
  "resolved_format template_env []
     (no_load_kvargs\<lparr>overwrite := Some (PBool True), template_path := Some ''etc/junos.d/base.conf''\<rparr>)
     = Some ''text''"
  "load_content template_env []
     (no_load_kvargs\<lparr>overwrite := Some (PBool True), template_path := Some ''etc/junos.d/base.conf''\<rparr>)
     = Some (Val (PStr curly_example))"
  "resolved_format (quiet_env ok_dev) [Val (PStr curly_example)] no_load_kvargs = Some ''text''"
  "load_content (quiet_env ok_dev) [Val (PStr curly_example)] no_load_kvargs
     = Some (Val (PStr curly_example))"
  "resolved_format (quiet_env ok_dev) [] (no_load_kvargs\<lparr>path := Some ''snippet.xml''\<rparr>) = Some ''xml''"
  "load_content (quiet_env ok_dev) [] (no_load_kvargs\<lparr>path := Some ''snippet.xml''\<rparr>)
     = Some (Val (PStr ''set system host-name foo''))"
  by (simp_all add: resolved_format_def load_content_def no_load_kvargs_def quiet_env_def
        template_env_def conf_template_def render_vars_def lformat_byext_examples
        lformat_byext_conf lset_from_rexp_def shape_text_example)

lemma marker_examples:
  "marker_xattrs ''set'' (no_load_kvargs\<lparr>path := Some ''base.set''\<rparr>)
     = [''format'' \<mapsto> ''text'', ''action'' \<mapsto> ''set'']"
  "marker_xattrs ''text'' (no_load_kvargs\<lparr>merge := Some (PBool True), template := Some conf_template\<rparr>)
     = [''format'' \<mapsto> ''text'']"
  "marker_xattrs ''text''
     (no_load_kvargs\<lparr>overwrite := Some (PBool True), template_path := Some ''etc/junos.d/base.conf''\<rparr>)
     = [''format'' \<mapsto> ''text'', ''action'' \<mapsto> ''override'']"
  "marker_xattrs ''text'' no_load_kvargs = [''format'' \<mapsto> ''text'', ''action'' \<mapsto> ''replace'']"
  "marker_xattrs ''xml'' (no_load_kvargs\<lparr>path := Some ''snippet.xml''\<rparr>)
     = [''format'' \<mapsto> ''xml'', ''action'' \<mapsto> ''replace'']"
  by (simp_all add: marker_xattrs_def no_load_kvargs_def overwrite_arg_def)

lemma overwrite_examples:
  "\<not> py_eq (PBool True) (overwrite_arg (no_load_kvargs\<lparr>path := Some ''base.set''\<rparr>))"
  "\<not> py_eq (PBool True)
       (overwrite_arg (no_load_kvargs\<lparr>merge := Some (PBool True), template := Some conf_template\<rparr>))"
  "\<not> py_eq (PBool True) (overwrite_arg no_load_kvargs)"
  "\<not> py_eq (PBool True) (overwrite_arg (no_load_kvargs\<lparr>path := Some ''snippet.xml''\<rparr>))"
  by (simp_all add: no_load_kvargs_def overwrite_arg_def)

lemma try_load_examples:
  "try_load (quiet_env ok_dev) c xa = ([load_config c xa], Inr (Element (Elem ''rpc-reply'' None [])))"
  "try_load template_env c xa = ([load_config c xa], Inr (Element (Elem ''rpc-reply'' None [])))"
  by (simp_all add: try_load_def quiet_env_def template_env_def ok_dev_def)

text \<open>
  C1. \<open>load\<close> builds its request from the resolved format and the flags. Whatever the
  source of the content (given directly, read from a path, rendered from a template
  path or from a template object), once a format is resolved and the content is
  obtained, \<open>load\<close> sends exactly one request, with that content and with the attributes
  \<open>marker_xattrs\<close>: action \<^verbatim>\<open>set\<close> with the format sent as \<^verbatim>\<open>text\<close> when the resolved format
  is \<^verbatim>\<open>set\<close>; otherwise action \<^verbatim>\<open>override\<close> when \<^verbatim>\<open>overwrite\<close> equals \<^verbatim>\<open>True\<close>; otherwise no
  action at all when \<^verbatim>\<open>merge\<close> is \<^verbatim>\<open>True\<close>; otherwise action \<^verbatim>\<open>replace\<close>. The one case left
  out is \<^verbatim>\<open>set\<close> with \<^verbatim>\<open>overwrite\<close> equal to \<^verbatim>\<open>True\<close>, where no request is built. Conversely
  every request that \<open>load\<close> sends has the content and the attributes so chosen.
\<close>

theorem load_action_marker:
  "(load_config c xa \<in> set (fst (load e vargs kv)) \<longrightarrow>
     (\<exists>f c0. resolved_format e vargs kv = Some f \<and> load_content e vargs kv = Some c0 \<and>
        sent_content e f c0 = Inr c \<and> xa = marker_xattrs f kv \<and>
        xa ''action'' =
          (if f = ''set'' then Some ''set''
           else if py_eq (PBool True) (overwrite_arg kv) then Some ''override''
           else if merge kv = Some (PBool True) then None
           else Some ''replace'') \<and>
        xa ''format'' = Some (if f = ''set'' then ''text'' else f)))
   \<and> (resolved_format e vargs kv = Some g \<and> load_content e vargs kv = Some c0
        \<and> \<not> (g = ''set'' \<and> py_eq (PBool True) (overwrite_arg kv)) \<longrightarrow>
        (case sent_content e g c0 of
           Inl err \<Rightarrow> load e vargs kv = ([], Inl err)
         | Inr c' \<Rightarrow> load e vargs kv = try_load e c' (marker_xattrs g kv)
                     \<and> fst (load e vargs kv) = [load_config c' (marker_xattrs g kv)]))"
proof (intro conjI impI)
  assume m: "load_config c xa \<in> set (fst (load e vargs kv))"
  from load_call_exact [OF m] obtain f c1 where
    x: "resolved_format e vargs kv = Some f" "load_content e vargs kv = Some c1"
       "sent_content e f c1 = Inr c" "xa = marker_xattrs f kv"
    by blast
  from load_call_marker [OF m] x(1)
  have "xa ''action'' =
          (if f = ''set'' then Some ''set''
           else if py_eq (PBool True) (overwrite_arg kv) then Some ''override''
           else if merge kv = Some (PBool True) then None
           else Some ''replace'') \<and>
        xa ''format'' = Some (if f = ''set'' then ''text'' else f)"
    by simp
  with x show "\<exists>f c0. resolved_format e vargs kv = Some f \<and> load_content e vargs kv = Some c0 \<and>
        sent_content e f c0 = Inr c \<and> xa = marker_xattrs f kv \<and>
        xa ''action'' =
          (if f = ''set'' then Some ''set''
           else if py_eq (PBool True) (overwrite_arg kv) then Some ''override''
           else if merge kv = Some (PBool True) then None
           else Some ''replace'') \<and>
        xa ''format'' = Some (if f = ''set'' then ''text'' else f)"
    by blast
next
  assume h: "resolved_format e vargs kv = Some g \<and> load_content e vargs kv = Some c0
        \<and> \<not> (g = ''set'' \<and> py_eq (PBool True) (overwrite_arg kv))"
  then have l: "load e vargs kv =
          (case sent_content e g c0 of
             Inl err \<Rightarrow> ([], Inl err)
           | Inr c \<Rightarrow> try_load e c (marker_xattrs g kv))"
    by (intro load_builds_request) simp_all
  show "case sent_content e g c0 of
           Inl err \<Rightarrow> load e vargs kv = ([], Inl err)
         | Inr c' \<Rightarrow> load e vargs kv = try_load e c' (marker_xattrs g kv)
                     \<and> fst (load e vargs kv) = [load_config c' (marker_xattrs g kv)]"
    unfolding l by (cases "sent_content e g c0") (simp_all add: try_load_fst)
qed

theorem load_action_marker_witness:
  "resolved_format (quiet_env ok_dev) [] (no_load_kvargs\<lparr>path := Some ''base.set''\<rparr>) = Some ''set'' \<and>
   load_content (quiet_env ok_dev) [] (no_load_kvargs\<lparr>path := Some ''base.set''\<rparr>)
     = Some (Val (PStr ''set system host-name foo'')) \<and>
   load (quiet_env ok_dev) [] (no_load_kvargs\<lparr>path := Some ''base.set''\<rparr>) =
     ([load_config (Val (PStr ''set system host-name foo'')) [''format'' \<mapsto> ''text'', ''action'' \<mapsto> ''set'']],
      Inr (Element (Elem ''rpc-reply'' None []))) \<and>
   resolved_format (quiet_env ok_dev) [] (no_load_kvargs\<lparr>path := Some ''snippet.xml''\<rparr>) = Some ''xml'' \<and>
   load (quiet_env ok_dev) [] (no_load_kvargs\<lparr>path := Some ''snippet.xml''\<rparr>) =
     ([load_config (Element (Elem ''configuration'' (Some ''set system host-name foo'') []))
         [''format'' \<mapsto> ''xml'', ''action'' \<mapsto> ''replace'']],
      Inr (Element (Elem ''rpc-reply'' None []))) \<and>
   resolved_format (quiet_env ok_dev) []
     (no_load_kvargs\<lparr>merge := Some (PBool True), template := Some conf_template\<rparr>) = Some ''text'' \<and>
   load_content (quiet_env ok_dev) []
     (no_load_kvargs\<lparr>merge := Some (PBool True), template := Some conf_template\<rparr>)
     = Some (Val (PStr curly_example)) \<and>
   load (quiet_env ok_dev) [] (no_load_kvargs\<lparr>merge := Some (PBool True), template := Some conf_template\<rparr>) =
     ([load_config (Val (PStr curly_example)) [''format'' \<mapsto> ''text'']],
      Inr (Element (Elem ''rpc-reply'' None []))) \<and>
   resolved_format template_env []
     (no_load_kvargs\<lparr>overwrite := Some (PBool True), template_path := Some ''etc/junos.d/base.conf''\<rparr>)
     = Some ''text'' \<and>
   load_content template_env []
     (no_load_kvargs\<lparr>overwrite := Some (PBool True), template_path := Some ''etc/junos.d/base.conf''\<rparr>)
     = Some (Val (PStr curly_example)) \<and>
   load template_env []
     (no_load_kvargs\<lparr>overwrite := Some (PBool True), template_path := Some ''etc/junos.d/base.conf''\<rparr>) =
     ([load_config (Val (PStr curly_example)) [''format'' \<mapsto> ''text'', ''action'' \<mapsto> ''override'']],
      Inr (Element (Elem ''rpc-reply'' None []))) \<and>
   resolved_format (quiet_env ok_dev) [Val (PStr curly_example)] no_load_kvargs = Some ''text'' \<and>
   load (quiet_env ok_dev) [Val (PStr curly_example)] no_load_kvargs =
     ([load_config (Val (PStr curly_example)) [''format'' \<mapsto> ''text'', ''action'' \<mapsto> ''replace'']],
      Inr (Element (Elem ''rpc-reply'' None []))) \<and>
   load_config (Element doc_example) [''format'' \<mapsto> ''xml'', ''action'' \<mapsto> ''replace'']
     \<in> set (fst (load (quiet_env ok_dev) [Element doc_example] no_load_kvargs)) \<and>
   resolved_format (quiet_env ok_dev) [Element doc_example] no_load_kvargs = Some ''xml'' \<and>
   [''format'' \<mapsto> ''xml'', ''action'' \<mapsto> ''replace''] = marker_xattrs ''xml'' no_load_kvargs"
proof -
  note p = load_action_marker [where e = "quiet_env ok_dev" and vargs = "[]"
      and kv = "no_load_kvargs\<lparr>path := Some ''base.set''\<rparr>" and g = "''set''"
      and ?c0.0 = "Val (PStr ''set system host-name foo'')", THEN conjunct2]
  note x = load_action_marker [where e = "quiet_env ok_dev" and vargs = "[]"
      and kv = "no_load_kvargs\<lparr>path := Some ''snippet.xml''\<rparr>" and g = "''xml''"
      and ?c0.0 = "Val (PStr ''set system host-name foo'')", THEN conjunct2]
  note t = load_action_marker [where e = "quiet_env ok_dev" and vargs = "[]"
      and kv = "no_load_kvargs\<lparr>merge := Some (PBool True), template := Some conf_template\<rparr>"
      and g = "''text''" and ?c0.0 = "Val (PStr curly_example)", THEN conjunct2]
  note tp = load_action_marker [where e = template_env and vargs = "[]"
      and kv = "no_load_kvargs\<lparr>overwrite := Some (PBool True),
                  template_path := Some ''etc/junos.d/base.conf''\<rparr>"
      and g = "''text''" and ?c0.0 = "Val (PStr curly_example)", THEN conjunct2]
  note d = load_action_marker [where e = "quiet_env ok_dev" and vargs = "[Val (PStr curly_example)]"
      and kv = no_load_kvargs and g = "''text''" and ?c0.0 = "Val (PStr curly_example)", THEN conjunct2]
  note s = load_action_marker [where e = "quiet_env ok_dev" and vargs = "[Element doc_example]"
      and kv = no_load_kvargs and c = "Element doc_example"
      and xa = "[''format'' \<mapsto> ''xml'', ''action'' \<mapsto> ''replace'']", THEN conjunct1]
  from p have 1: "load (quiet_env ok_dev) [] (no_load_kvargs\<lparr>path := Some ''base.set''\<rparr>) =
     ([load_config (Val (PStr ''set system host-name foo'')) [''format'' \<mapsto> ''text'', ''action'' \<mapsto> ''set'']],
      Inr (Element (Elem ''rpc-reply'' None [])))"
    by (simp add: source_examples marker_examples overwrite_examples sent_content_plain try_load_examples)
  from x have 2: "load (quiet_env ok_dev) [] (no_load_kvargs\<lparr>path := Some ''snippet.xml''\<rparr>) =
     ([load_config (Element (Elem ''configuration'' (Some ''set system host-name foo'') []))
         [''format'' \<mapsto> ''xml'', ''action'' \<mapsto> ''replace'']],
      Inr (Element (Elem ''rpc-reply'' None [])))"
    by (simp add: source_examples marker_examples overwrite_examples sent_content_parsed try_load_examples)
  from t have 3: "load (quiet_env ok_dev) []
       (no_load_kvargs\<lparr>merge := Some (PBool True), template := Some conf_template\<rparr>) =
     ([load_config (Val (PStr curly_example)) [''format'' \<mapsto> ''text'']],
      Inr (Element (Elem ''rpc-reply'' None [])))"
    by (simp add: source_examples marker_examples overwrite_examples sent_content_plain try_load_examples)
  from tp have 4: "load template_env []
     (no_load_kvargs\<lparr>overwrite := Some (PBool True), template_path := Some ''etc/junos.d/base.conf''\<rparr>) =
     ([load_config (Val (PStr curly_example)) [''format'' \<mapsto> ''text'', ''action'' \<mapsto> ''override'']],
      Inr (Element (Elem ''rpc-reply'' None [])))"
    by (simp add: source_examples marker_examples overwrite_examples sent_content_plain try_load_examples)
  from d have 5: "load (quiet_env ok_dev) [Val (PStr curly_example)] no_load_kvargs =
     ([load_config (Val (PStr curly_example)) [''format'' \<mapsto> ''text'', ''action'' \<mapsto> ''replace'']],
      Inr (Element (Elem ''rpc-reply'' None [])))"
    by (simp add: source_examples marker_examples overwrite_examples sent_content_plain try_load_examples)
  have m: "load_config (Element doc_example) [''format'' \<mapsto> ''xml'', ''action'' \<mapsto> ''replace'']
     \<in> set (fst (load (quiet_env ok_dev) [Element doc_example] no_load_kvargs))"
    by (simp add: load_examples)
  note r = resolved_format_examples(3)
  from s [THEN mp, OF m] obtain f where
    "resolved_format (quiet_env ok_dev) [Element doc_example] no_load_kvargs = Some f"
    and e: "[''format'' \<mapsto> ''xml'', ''action'' \<mapsto> ''replace''] = marker_xattrs f no_load_kvargs"
    by blast
  with r have "f = ''xml''" by simp
  with e have 6: "[''format'' \<mapsto> ''xml'', ''action'' \<mapsto> ''replace''] = marker_xattrs ''xml'' no_load_kvargs"
    by (simp only:)
  from 1 2 3 4 5 6 m r source_examples show ?thesis by (intro conjI)
qed

end
